theory Spec2Isabelle
  imports Main "HOL-Library.Word" "HOL-Library.Signed_Division" "HOL-Library.AList"
begin

unbundle bit_operations_syntax

section \<open>Go library functions used by the adapter\<close>

text \<open>
  Go strings and byte slices are sequences of bytes; both are modelled as lists of
  \<^typ>\<open>char\<close>, HOL's 8-bit character type. \<open>int64\<close> is a 64-bit word read in two's
  complement by \<^const>\<open>sint\<close>.
\<close>

type_synonym byte = char
type_synonym int64 = "64 word"

subsection \<open>Errors\<close>

text \<open>
  A Go \<open>error\<close> is a value with an \<open>Error()\<close> method that gives its message. A function
  whose Go result is an \<open>error\<close> returns an \<open>error option\<close>, \<open>None\<close> standing for \<open>nil\<close>.
  \<open>fmt.Errorf(prefix + "%v", err)\<close> makes a new error whose message is the prefix followed
  by the message of \<open>err\<close>.
\<close>

datatype error = Err (Error: string)

definition fmt_Errorf :: "string \<Rightarrow> error \<Rightarrow> error" where
  "fmt_Errorf pre err = Err (pre @ Error err)"

subsection \<open>Package path\<close>

fun split_on :: "char \<Rightarrow> string \<Rightarrow> string list" where
  "split_on c [] = [[]]"
| "split_on c (x # xs) =
     (if x = c then [] # split_on c xs
      else (case split_on c xs of
              [] \<Rightarrow> [[x]]
            | s # ss \<Rightarrow> (x # s) # ss))"

fun join_with :: "string \<Rightarrow> string list \<Rightarrow> string" where
  "join_with sep [] = []"
| "join_with sep [s] = s"
| "join_with sep (s # t # ss) = s @ sep @ join_with sep (t # ss)"

text \<open>
  \<open>path.Clean\<close>: multiple slashes become one, every \<open>.\<close> element goes, every inner
  \<open>..\<close> element goes together with the element before it, a \<open>..\<close> that begins a rooted
  path goes, and the empty result is \<open>.\<close>. \<open>clean_elem\<close> handles one element of the
  path, \<open>out\<close> being the elements already kept.
\<close>

definition clean_elem :: "bool \<Rightarrow> string list \<Rightarrow> string \<Rightarrow> string list" where
  "clean_elem rooted out e =
     (if e = [] \<or> e = ''.'' then out
      else if e = ''..'' then
        (if out \<noteq> [] \<and> last out \<noteq> ''..'' then butlast out
         else if rooted then out
         else out @ [e])
      else out @ [e])"

definition path_Clean :: "string \<Rightarrow> string" where
  "path_Clean p =
     (let rooted = (p \<noteq> [] \<and> hd p = CHR ''/'');
          body = join_with ''/'' (foldl (clean_elem rooted) [] (split_on CHR ''/'' p))
      in if rooted then CHR ''/'' # body
         else if body = [] then ''.''
         else body)"

text \<open>
  \<open>path.Join\<close>: the elements from the first non-empty one on are joined with slashes
  and the result is cleaned; with no non-empty element the result is the empty string.
\<close>

fun path_Join :: "string list \<Rightarrow> string" where
  "path_Join [] = []"
| "path_Join (e # es) =
     (if e \<noteq> [] then path_Clean (join_with ''/'' (e # es)) else path_Join es)"

subsection \<open>Package math/rand\<close>

text \<open>
  The process-wide random source is a stream of 64-bit values; drawing one moves the
  stream on. \<open>rand.Int63\<close> masks the top bit of the value drawn.
\<close>

type_synonym rand_source = "nat \<Rightarrow> 64 word"

definition rngMask :: "64 word" where
  "rngMask = 2 ^ 63 - 1"

definition rand_Int63 :: "rand_source \<Rightarrow> int64 \<times> rand_source" where
  "rand_Int63 r = (r 0 AND rngMask, \<lambda>i. r (Suc i))"

text \<open>
  Go's \<open>%\<close> on \<open>int64\<close> truncates towards zero and panics on a zero divisor; indexing a
  string panics outside \<open>0 \<le> i < len(s)\<close>. A panic is the value \<open>None\<close>.
\<close>

definition rem_int64 :: "int64 \<Rightarrow> int64 \<Rightarrow> int64 option" where
  "rem_int64 a b = (if b = 0 then None else Some (word_of_int (sint a smod sint b)))"

definition index_string :: "string \<Rightarrow> int64 \<Rightarrow> byte option" where
  "index_string s i =
     (if 0 \<le> sint i \<and> sint i < int (length s) then Some (s ! nat (sint i)) else None)"

subsection \<open>Package encoding/base64\<close>

definition encodeStd :: string where
  "encodeStd = ''ABCDEFGHIJKLMNOPQRSTUVWXYZabcdefghijklmnopqrstuvwxyz0123456789+/''"

definition b64 :: "nat \<Rightarrow> char" where
  "b64 i = encodeStd ! (i mod 64)"

fun EncodeToString :: "byte list \<Rightarrow> string" where
  "EncodeToString [] = []"
| "EncodeToString [a] =
     (let x = (of_char a :: nat)
      in [b64 (x div 4), b64 ((x mod 4) * 16), CHR ''='', CHR ''=''])"
| "EncodeToString [a, b] =
     (let x = (of_char a :: nat); y = (of_char b :: nat)
      in [b64 (x div 4), b64 ((x mod 4) * 16 + y div 16), b64 ((y mod 16) * 4), CHR ''=''])"
| "EncodeToString (a # b # c # rest) =
     (let x = (of_char a :: nat); y = (of_char b :: nat); z = (of_char c :: nat)
      in [b64 (x div 4), b64 ((x mod 4) * 16 + y div 16),
          b64 ((y mod 16) * 4 + z div 64), b64 (z mod 64)] @ EncodeToString rest)"

section \<open>The adapter: random block identifiers\<close>

definition letterBytes :: string where
  "letterBytes = ''abcdefghijklmnopqrstuvwxyzABCDEFGHIJKLMNOPQRSTUVWXYZ''"

text \<open>
  The loop of \<open>randBytes\<close> over the \<open>k\<close> positions of the slice still to fill: each
  takes one value of the source, reduces it modulo the length of the letter table and
  reads the table there.
\<close>

fun randBytes_loop :: "nat \<Rightarrow> rand_source \<Rightarrow> (byte list \<times> rand_source) option" where
  "randBytes_loop 0 r = Some ([], r)"
| "randBytes_loop (Suc k) r =
     (case rand_Int63 r of (x, r') \<Rightarrow>
        (case rem_int64 x (of_nat (length letterBytes)) of
           None \<Rightarrow> None
         | Some i \<Rightarrow>
             (case index_string letterBytes i of
                None \<Rightarrow> None
              | Some c \<Rightarrow>
                  (case randBytes_loop k r' of
                     None \<Rightarrow> None
                   | Some (cs, r'') \<Rightarrow> Some (c # cs, r'')))))"

text \<open>
  The length \<open>n\<close> is a Go \<open>int\<close>, 64 bits wide on the platforms of the operator.
  \<open>make([]byte, n)\<close> panics (\<open>makeslice: len out of range\<close>) on a negative length and
  on a length above the allocation limit of the runtime, \<open>maxAlloc\<close>: \<open>2^48\<close> bytes in
  the 64-bit runtime (older runtimes have a lower limit, every one far above the 6 bytes
  that \<open>Put\<close> asks for). Running out of memory below the limit ends the program without
  a panic and is not modelled.
\<close>

definition maxAlloc :: int where
  "maxAlloc = 2 ^ 48"

definition randBytes :: "int64 \<Rightarrow> rand_source \<Rightarrow> (byte list \<times> rand_source) option" where
  "randBytes n r =
     (if sint n < 0 \<or> maxAlloc < sint n then None else randBytes_loop (nat (sint n)) r)"

section \<open>The storage service\<close>

text \<open>
  The adapter talks to the blob service through the storage SDK
  (\<open>github.com/Azure/azure-sdk-for-go/storage\<close>), a library outside the repository. Its
  calls are modelled by what the service does with the adapter's container. The state of
  the service is the blobs the container holds, in the order in which the service lists
  them. A block blob has a committed content, which is what a read and a listing see, and
  a list of staged blocks that are not part of the content: \<open>Put Blob\<close> (the SDK's
  \<open>CreateBlockBlob\<close>, which initializes an empty block blob with no blocks) sets the
  committed content to the empty content and drops the staged blocks; \<open>Put Block\<close> (the
  SDK's \<open>PutBlock\<close>) stages a block under its identifier and leaves the committed
  content as it is, until a block list is committed. A blob that has staged blocks only has
  no committed content, and is neither read nor listed.

  A call can also fail for reasons outside the container (network, authentication,
  quota). \<open>faults\<close> is the schedule of these failures: each call takes the head of the
  schedule, fails with it if it is an error and has no effect then. \<open>calls\<close> records
  every call sent, in order.

  The service answers a listing one page at a time. \<open>page_size\<close> is the number of blobs
  it puts in one response at most: 5000 when the request names no maximum, as the
  adapter's does not, and fewer where the listing crosses a partition of the service.
\<close>

record blob_state =
  committed :: "byte list option"
  staged :: "(string \<times> byte list) list"

datatype call =
    CreateBlockBlob string
  | PutBlock string string "byte list"
  | GetBlob string
  | DeleteBlob string
  | ListBlobs string
  | CopyBlob string string

record service =
  stored :: "(string \<times> blob_state) list"
  faults :: "error option list"
  calls :: "call list"
  page_size :: nat

text \<open>The SDK's \<open>Container\<close>, \<open>Blob\<close> (with \<open>blob.Name\<close> as \<open>Blob_Name\<close>),
  \<open>BlobProperties\<close>, \<open>ListBlobsParameters\<close> and \<open>BlobListResponse\<close> (with
  \<open>resp.Prefix\<close> as \<open>resp_Prefix\<close>), with the fields the adapter uses and the
  \<open>NextMarker\<close> of a response, which tells where the next page begins and is empty on
  the last page.\<close>

record Container =
  Name :: string

record BlobProperties =
  ContentLength :: int64

record Blob =
  Blob_Container :: Container
  Blob_Name :: string
  Properties :: BlobProperties

record ListBlobsParameters =
  Prefix :: string

record BlobListResponse =
  resp_Prefix :: string
  Blobs :: "Blob list"
  NextMarker :: string

definition GetBlobReference :: "Container \<Rightarrow> string \<Rightarrow> Blob" where
  "GetBlobReference c name =
     \<lparr>Blob_Container = c, Blob_Name = name, Properties = \<lparr>ContentLength = 0\<rparr>\<rparr>"

text \<open>The text of an error that the service answers with, in the SDK's format. The
  date and the identifier of the request differ from one request to the next; they are
  written here with fixed values.\<close>

definition serviceError :: "string \<Rightarrow> string \<Rightarrow> string \<Rightarrow> error" where
  "serviceError statusCode code message =
     Err (''storage: service returned error: StatusCode='' @ statusCode
          @ '', ErrorCode='' @ code
          @ '', ErrorMessage='' @ message
          @ '', RequestInitiated=Mon, 01 Jan 2018 00:00:00 GMT''
          @ '', RequestId=00000000-0000-0000-0000-000000000000''
          @ '', API Version=2016-05-31''
          @ '', QueryParameterName='' @ '', QueryParameterValue='')"

definition blobNotFound :: error where
  "blobNotFound = serviceError ''404'' ''BlobNotFound'' ''The specified blob does not exist.''"

definition cannotVerifyCopySource :: error where
  "cannotVerifyCopySource =
     serviceError ''404'' ''CannotVerifyCopySource'' ''The specified resource does not exist.''"

definition request :: "call \<Rightarrow> service \<Rightarrow> error option \<times> service" where
  "request c s =
     (case faults s of
        [] \<Rightarrow> (None, s\<lparr>calls := calls s @ [c]\<rparr>)
      | f # fs \<Rightarrow> (f, s\<lparr>faults := fs, calls := calls s @ [c]\<rparr>))"

definition has_prefix :: "string \<Rightarrow> string \<Rightarrow> bool" where
  "has_prefix s p = (take (length p) s = p)"

definition Blob_CreateBlockBlob :: "Blob \<Rightarrow> service \<Rightarrow> error option \<times> service" where
  "Blob_CreateBlockBlob b s =
     (case request (CreateBlockBlob (Blob_Name b)) s of
        (Some err, s') \<Rightarrow> (Some err, s')
      | (None, s') \<Rightarrow>
          (None, s'\<lparr>stored :=
             AList.update (Blob_Name b) \<lparr>committed = Some [], staged = []\<rparr> (stored s')\<rparr>))"

definition stage_block :: "string \<Rightarrow> byte list \<Rightarrow> blob_state option \<Rightarrow> blob_state" where
  "stage_block blockID chunk old =
     (case old of
        None \<Rightarrow> \<lparr>committed = None, staged = [(blockID, chunk)]\<rparr>
      | Some st \<Rightarrow> st\<lparr>staged := AList.update blockID chunk (staged st)\<rparr>)"

definition Blob_PutBlock :: "Blob \<Rightarrow> string \<Rightarrow> byte list \<Rightarrow> service \<Rightarrow> error option \<times> service" where
  "Blob_PutBlock b blockID chunk s =
     (case request (PutBlock (Blob_Name b) blockID chunk) s of
        (Some err, s') \<Rightarrow> (Some err, s')
      | (None, s') \<Rightarrow>
          (None, s'\<lparr>stored :=
             AList.update (Blob_Name b)
               (stage_block blockID chunk (map_of (stored s') (Blob_Name b))) (stored s')\<rparr>))"

text \<open>A read gives the committed content; the stream it returns is modelled by the
  bytes it holds.\<close>

definition read_committed :: "service \<Rightarrow> string \<Rightarrow> byte list option" where
  "read_committed s name =
     (case map_of (stored s) name of
        None \<Rightarrow> None
      | Some st \<Rightarrow> committed st)"

definition Blob_Get :: "Blob \<Rightarrow> service \<Rightarrow> (error + byte list) \<times> service" where
  "Blob_Get b s =
     (case request (GetBlob (Blob_Name b)) s of
        (Some err, s') \<Rightarrow> (Inl err, s')
      | (None, s') \<Rightarrow>
          (case read_committed s' (Blob_Name b) of
             None \<Rightarrow> (Inl blobNotFound, s')
           | Some content \<Rightarrow> (Inr content, s')))"

definition Blob_Delete :: "Blob \<Rightarrow> service \<Rightarrow> error option \<times> service" where
  "Blob_Delete b s =
     (case request (DeleteBlob (Blob_Name b)) s of
        (Some err, s') \<Rightarrow> (Some err, s')
      | (None, s') \<Rightarrow>
          (case read_committed s' (Blob_Name b) of
             None \<Rightarrow> (Some blobNotFound, s')
           | Some content \<Rightarrow> (None, s'\<lparr>stored := AList.delete (Blob_Name b) (stored s')\<rparr>)))"

text \<open>\<open>listing\<close> is the whole listing for a prefix: in the service's order, every blob
  that has a committed content and whose name begins with the prefix, each with the length
  of its content. A call of \<open>ListBlobs\<close> with no marker, which is the only call the
  adapter makes, answers with the prefix asked for and the first page of the listing;
  when blobs are left, \<open>NextMarker\<close> is the name of the first of them.\<close>

fun listing :: "Container \<Rightarrow> string \<Rightarrow> (string \<times> blob_state) list \<Rightarrow> Blob list" where
  "listing c p [] = []"
| "listing c p ((name, st) # rest) =
     (case committed st of
        None \<Rightarrow> listing c p rest
      | Some content \<Rightarrow>
          (if has_prefix name p
           then \<lparr>Blob_Container = c, Blob_Name = name,
                 Properties = \<lparr>ContentLength = of_nat (length content)\<rparr>\<rparr> # listing c p rest
           else listing c p rest))"

definition Container_ListBlobs ::
  "Container \<Rightarrow> ListBlobsParameters \<Rightarrow> service \<Rightarrow> (error + BlobListResponse) \<times> service" where
  "Container_ListBlobs c params s =
     (case request (ListBlobs (Prefix params)) s of
        (Some err, s') \<Rightarrow> (Inl err, s')
      | (None, s') \<Rightarrow>
          (let all_blobs = listing c (Prefix params) (stored s')
           in (Inr \<lparr>resp_Prefix = Prefix params,
                    Blobs = take (page_size s') all_blobs,
                    NextMarker = (case drop (page_size s') all_blobs of
                                    [] \<Rightarrow> []
                                  | next_blob # _ \<Rightarrow> Blob_Name next_blob)\<rparr>, s')))"

text \<open>A copy is asked of the destination blob and names its source. The SDK wants the
  source as the URL of a blob, \<open>scheme://host/container/blob\<close>; the adapter passes the
  path \<open>container/blob\<close> alone. The model lets the service take either: the source
  names a blob of the container when its path, the text after the host of a URL or the
  whole text when it is no URL, is the name of the container, a slash and the name of the
  blob. The destination gets the committed content of that blob.\<close>

fun after_scheme :: "string \<Rightarrow> string option" where
  "after_scheme [] = None"
| "after_scheme (x # xs) =
     (if has_prefix (x # xs) ''://'' then Some (drop 3 (x # xs)) else after_scheme xs)"

definition source_path :: "string \<Rightarrow> string" where
  "source_path sourceBlob =
     (case after_scheme sourceBlob of
        None \<Rightarrow> sourceBlob
      | Some rest \<Rightarrow> drop 1 (dropWhile (\<lambda>c. c \<noteq> CHR ''/'') rest))"

definition Blob_Copy :: "Blob \<Rightarrow> string \<Rightarrow> service \<Rightarrow> error option \<times> service" where
  "Blob_Copy b sourceBlob s =
     (case request (CopyBlob (Blob_Name b) sourceBlob) s of
        (Some err, s') \<Rightarrow> (Some err, s')
      | (None, s') \<Rightarrow>
          (let root = Name (Blob_Container b) @ ''/''
           in if has_prefix (source_path sourceBlob) root
              then (case read_committed s' (drop (length root) (source_path sourceBlob)) of
                      None \<Rightarrow> (Some blobNotFound, s')
                    | Some content \<Rightarrow>
                        (None, s'\<lparr>stored :=
                           AList.update (Blob_Name b)
                             \<lparr>committed = Some content, staged = []\<rparr> (stored s')\<rparr>))
              else (Some cannotVerifyCopySource, s')))"

section \<open>The adapter\<close>

definition v1 :: string where
  "v1 = ''v1/''"

text \<open>The \<open>ABS\<close> struct. Its \<open>client\<close> field is set by the constructor and read by no
  operation; it is left out.\<close>

record ABS =
  container :: Container
  prefix :: string

text \<open>\<open>Put\<close> draws the block identifier from the random source, so it takes the source
  and returns it moved on. The outer \<open>option\<close> is \<open>None\<close> when the operation panics.\<close>

definition Put ::
  "ABS \<Rightarrow> string \<Rightarrow> byte list \<Rightarrow> rand_source \<Rightarrow> service
     \<Rightarrow> (error option \<times> rand_source \<times> service) option" where
  "Put w key chunk r s =
     (let blobName = path_Join [v1, prefix w, key];
          blob = GetBlobReference (container w) blobName
      in case Blob_CreateBlockBlob blob s of
           (Some err, s1) \<Rightarrow> Some (Some (fmt_Errorf ''create block blob failed: '' err), r, s1)
         | (None, s1) \<Rightarrow>
             (case randBytes 6 r of
                None \<Rightarrow> None
              | Some (bs, r1) \<Rightarrow>
                  (let blockID = EncodeToString bs
                   in case Blob_PutBlock blob blockID chunk s1 of
                        (Some err, s2) \<Rightarrow>
                          Some (Some (fmt_Errorf ''put block failed: '' err), r1, s2)
                      | (None, s2) \<Rightarrow> Some (None, r1, s2))))"

text \<open>\<open>Get\<close> returns the pair \<open>(io.ReadCloser, error)\<close>, each \<open>None\<close> when \<open>nil\<close>.\<close>

definition Get :: "ABS \<Rightarrow> string \<Rightarrow> service \<Rightarrow> (byte list option \<times> error option) \<times> service" where
  "Get w key s =
     (let blobName = path_Join [v1, prefix w, key];
          blob = GetBlobReference (container w) blobName
      in case Blob_Get blob s of
           (Inl err, s1) \<Rightarrow> ((None, Some err), s1)
         | (Inr resp, s1) \<Rightarrow> ((Some resp, None), s1))"

definition Delete :: "ABS \<Rightarrow> string \<Rightarrow> service \<Rightarrow> error option \<times> service" where
  "Delete w key s =
     (let blobName = path_Join [v1, prefix w, key];
          blob = GetBlobReference (container w) blobName
      in Blob_Delete blob s)"

text \<open>The slice expression \<open>s[n:]\<close> panics when \<open>n\<close> exceeds the length of \<open>s\<close>.\<close>

definition slice_from :: "string \<Rightarrow> nat \<Rightarrow> string option" where
  "slice_from s n = (if n \<le> length s then Some (drop n s) else None)"

text \<open>The loop of \<open>list\<close> over the blobs of the response, with the keys and the size
  gathered so far; the size \<open>sz\<close> is an \<open>int64\<close> and its addition wraps around.\<close>

fun list_loop :: "nat \<Rightarrow> Blob list \<Rightarrow> string list \<times> int64 \<Rightarrow> (string list \<times> int64) option" where
  "list_loop n [] (keys, sz) = Some (keys, sz)"
| "list_loop n (blob # rest) (keys, sz) =
     (case slice_from (Blob_Name blob) n of
        None \<Rightarrow> None
      | Some k \<Rightarrow> list_loop n rest (keys @ [k], sz + ContentLength (Properties blob)))"

text \<open>\<open>list\<close> returns the triple \<open>(int64, []string, error)\<close>: the slice is \<open>None\<close> when
  it is \<open>nil\<close> and \<open>Some []\<close> when it is empty and not \<open>nil\<close>.\<close>

definition list ::
  "ABS \<Rightarrow> string \<Rightarrow> service \<Rightarrow> ((int64 \<times> string list option \<times> error option) \<times> service) option" where
  "list w pfx s =
     (let params = \<lparr>Prefix = path_Join [v1, pfx] @ ''/''\<rparr>
      in case Container_ListBlobs (container w) params s of
           (Inl err, s1) \<Rightarrow> Some ((- 1, None, Some err), s1)
         | (Inr resp, s1) \<Rightarrow>
             (case list_loop (length (resp_Prefix resp)) (Blobs resp) ([], 0) of
                None \<Rightarrow> None
              | Some (keys, sz) \<Rightarrow> Some ((sz, Some keys, None), s1)))"

definition List :: "ABS \<Rightarrow> service \<Rightarrow> ((string list option \<times> error option) \<times> service) option" where
  "List w s =
     (case list w (prefix w) s of
        None \<Rightarrow> None
      | Some ((_, l, err), s1) \<Rightarrow> Some ((l, err), s1))"

definition TotalSize :: "ABS \<Rightarrow> service \<Rightarrow> ((int64 \<times> error option) \<times> service) option" where
  "TotalSize w s =
     (case list w (prefix w) s of
        None \<Rightarrow> None
      | Some ((sz, _, err), s1) \<Rightarrow> Some ((sz, err), s1))"

text \<open>The loop of \<open>CopyPrefix\<close> over the keys listed; it returns at the first copy that
  fails.\<close>

fun CopyPrefix_loop :: "ABS \<Rightarrow> string \<Rightarrow> string list \<Rightarrow> service \<Rightarrow> error option \<times> service" where
  "CopyPrefix_loop w from_prefix [] s = (None, s)"
| "CopyPrefix_loop w from_prefix (blob # rest) s =
     (let blobResource = GetBlobReference (container w) blob
      in case Blob_Copy blobResource
                (path_Join [Name (container w), v1, from_prefix, blob]) s of
           (Some err, s1) \<Rightarrow> (Some err, s1)
         | (None, s1) \<Rightarrow> CopyPrefix_loop w from_prefix rest s1)"

definition CopyPrefix :: "ABS \<Rightarrow> string \<Rightarrow> service \<Rightarrow> (error option \<times> service) option" where
  "CopyPrefix w from_prefix s =
     (case list w from_prefix s of
        None \<Rightarrow> None
      | Some ((_, blobs, err), s1) \<Rightarrow>
          (case err of
             Some e \<Rightarrow> Some (Some e, s1)
           | None \<Rightarrow>
               Some (CopyPrefix_loop w from_prefix (case blobs of None \<Rightarrow> [] | Some ks \<Rightarrow> ks) s1)))"

section \<open>Vocabulary of the properties\<close>

text \<open>The catalog of the service: the blobs that have a committed content, with that
  content, in the order of the service; and the part of a catalog whose names begin with
  a prefix.\<close>

fun catalog_of :: "(string \<times> blob_state) list \<Rightarrow> (string \<times> byte list) list" where
  "catalog_of [] = []"
| "catalog_of ((name, st) # rest) =
     (case committed st of
        None \<Rightarrow> catalog_of rest
      | Some content \<Rightarrow> (name, content) # catalog_of rest)"

definition catalog :: "service \<Rightarrow> (string \<times> byte list) list" where
  "catalog s = catalog_of (stored s)"

definition under_prefix :: "string \<Rightarrow> (string \<times> byte list) list \<Rightarrow> (string \<times> byte list) list" where
  "under_prefix p cat = filter (\<lambda>entry. has_prefix (fst entry) p) cat"

text \<open>The blobs of the catalog under a prefix that the first page of a listing holds.\<close>

definition first_page :: "service \<Rightarrow> string \<Rightarrow> (string \<times> byte list) list" where
  "first_page s p = take (page_size s) (under_prefix p (catalog s))"

text \<open>The exact sum of the content lengths of a catalog, as a natural number.\<close>

definition total_length :: "(string \<times> byte list) list \<Rightarrow> nat" where
  "total_length cat = sum_list (map (\<lambda>entry. length (snd entry)) cat)"

text \<open>The prefix that \<open>list\<close> asks the service for: the schema-version segment joined
  with a prefix, and a slash.\<close>

definition listed_prefix :: "string \<Rightarrow> string" where
  "listed_prefix pfx = path_Join [v1, pfx] @ ''/''"

text \<open>A plain path: not empty, and no element between its slashes is empty, \<open>.\<close> or
  \<open>..\<close>.\<close>

definition plain_path :: "string \<Rightarrow> bool" where
  "plain_path p = list_all (\<lambda>e. e \<noteq> [] \<and> e \<noteq> ''.'' \<and> e \<noteq> ''..'') (split_on CHR ''/'' p)"

text \<open>An error mentions a text when the text is part of its message.\<close>

fun contains :: "string \<Rightarrow> string \<Rightarrow> bool" where
  "contains [] sub = (sub = [])"
| "contains (x # xs) sub = (has_prefix (x # xs) sub \<or> contains xs sub)"

definition mentions :: "error \<Rightarrow> string \<Rightarrow> bool" where
  "mentions err txt = contains (Error err) txt"

section \<open>Snapshot names\<close>

text \<open>
  The encoder and the decoder of snapshot names (\<open>makeBackupName\<close> in the test of the
  adapter, and its parser) are code of the repository that is not among its sources. The
  spec gives the format of a name, \<open><version>_<revision>\<close>: the version, dot-separated
  numeric components, as it is; an underscore; the revision, an \<open>int64\<close> that is not
  negative, in decimal, zero-padded to a fixed width.
\<close>

text \<open>Modelled from the spec: the fixed width of the revision in a name, which the code of
  the encoder, missing here, fixes; the spec proposes 10 digits.\<close>

definition revision_width :: nat where
  "revision_width = 10"

text \<open>Decimal digits, a number in decimal at a fixed width, and the number that a
  sequence of digits stands for.\<close>

definition is_digit :: "char \<Rightarrow> bool" where
  "is_digit c = (48 \<le> (of_char c :: nat) \<and> (of_char c :: nat) \<le> 57)"

definition digit_char :: "nat \<Rightarrow> char" where
  "digit_char d = char_of (48 + d)"

definition digit_val :: "char \<Rightarrow> nat" where
  "digit_val c = of_char c - 48"

primrec fixed_decimal :: "nat \<Rightarrow> nat \<Rightarrow> string" where
  "fixed_decimal 0 n = []"
| "fixed_decimal (Suc k) n = fixed_decimal k (n div 10) @ [digit_char (n mod 10)]"

definition parse_decimal :: "string \<Rightarrow> nat" where
  "parse_decimal ds = foldl (\<lambda>acc c. 10 * acc + digit_val c) 0 ds"

text \<open>Modelled from the spec: the valid pairs, whose definition is part of the missing
  encoder. A version is a sequence of numeric components separated by dots, none of them
  empty; a revision is not negative and fits the fixed width.\<close>

definition valid_version :: "string \<Rightarrow> bool" where
  "valid_version version =
     list_all (\<lambda>e. e \<noteq> [] \<and> list_all is_digit e) (split_on CHR ''.'' version)"

definition valid_pair :: "string \<Rightarrow> int64 \<Rightarrow> bool" where
  "valid_pair version revision =
     (valid_version version \<and> 0 \<le> sint revision \<and> sint revision < 10 ^ revision_width)"

text \<open>Modelled from the spec: the missing encoder \<open>encodeName\<close>, which writes the
  version, an underscore and the revision zero-padded to the fixed width.\<close>

definition encodeName :: "string \<Rightarrow> int64 \<Rightarrow> string" where
  "encodeName version revision =
     version @ ''_'' @ fixed_decimal revision_width (nat (sint revision))"

text \<open>Modelled from the spec: the missing decoder, which splits a name at its first
  underscore and rejects it unless a version stands before the underscore and exactly the
  fixed width of digits after it.\<close>

definition decodeName :: "string \<Rightarrow> (string \<times> int64) option" where
  "decodeName name =
     (let version = takeWhile (\<lambda>c. c \<noteq> CHR ''_'') name;
          rest = dropWhile (\<lambda>c. c \<noteq> CHR ''_'') name
      in if valid_version version \<and> rest \<noteq> [] \<and> length (tl rest) = revision_width
            \<and> list_all is_digit (tl rest)
         then Some (version, of_nat (parse_decimal (tl rest)))
         else None)"

section \<open>Example states\<close>

text \<open>An adapter and states of the service on which the properties below are
  evaluated.\<close>

definition ex_abs :: ABS where
  "ex_abs = \<lparr>container = \<lparr>Name = ''backups''\<rparr>, prefix = ''etcd''\<rparr>"

definition ex_empty :: service where
  "ex_empty = \<lparr>stored = [], faults = [], calls = [], page_size = 5000\<rparr>"

definition ex_written :: service where
  "ex_written =
     \<lparr>stored = [(''v1/etcd/3.1.0_1'',
                 \<lparr>committed = Some [], staged = [(''YWFhYWFh'', ''data'')]\<rparr>)],
      faults = [],
      calls = [CreateBlockBlob ''v1/etcd/3.1.0_1'',
               PutBlock ''v1/etcd/3.1.0_1'' ''YWFhYWFh'' ''data''],
      page_size = 5000\<rparr>"

definition ex_failing :: service where
  "ex_failing =
     \<lparr>stored = [], faults = [Some (Err ''connection reset'')], calls = [],
      page_size = 5000\<rparr>"

definition ex_failing_second :: service where
  "ex_failing_second =
     \<lparr>stored = [], faults = [None, Some (Err ''connection reset'')], calls = [],
      page_size = 5000\<rparr>"

definition ex_staged :: service where
  "ex_staged =
     \<lparr>stored = [(''v1/staged/a'', \<lparr>committed = Some ''xy'', staged = []\<rparr>),
                (''v1/staged/b'', \<lparr>committed = Some ''z'', staged = []\<rparr>),
                (''v1/staged/c'', \<lparr>committed = Some ''uvw'', staged = []\<rparr>)],
      faults = [], calls = [], page_size = 5000\<rparr>"

definition ex_staged_failing :: service where
  "ex_staged_failing = ex_staged\<lparr>faults := [None, None, Some (Err ''connection reset'')]\<rparr>"

definition ex_mixed :: service where
  "ex_mixed =
     \<lparr>stored = [(''v1/etcd/3.1.0_1'', \<lparr>committed = Some ''ab'', staged = []\<rparr>),
                (''v1/etcdx/3.1.0_2'', \<lparr>committed = Some ''zz'', staged = []\<rparr>),
                (''v1/etcd/not-a-snapshot'', \<lparr>committed = Some ''c'', staged = []\<rparr>),
                (''v1/etcd/staged-only'', \<lparr>committed = None, staged = [(''YQ=='', ''q'')]\<rparr>),
                (''other/x'', \<lparr>committed = Some ''d'', staged = []\<rparr>)],
      faults = [], calls = [], page_size = 5000\<rparr>"

definition ex_outside :: service where
  "ex_outside =
     \<lparr>stored = [(''v1/3.1.0_1'', \<lparr>committed = Some ''zz'', staged = []\<rparr>)],
      faults = [], calls = [], page_size = 5000\<rparr>"

text \<open>Three blobs under the adapter's prefix in a service that answers two at a time,
  and 5001 blobs of one byte each in a service that answers 5000 at a time.\<close>

definition ex_paged :: service where
  "ex_paged =
     \<lparr>stored = [(''v1/etcd/a'', \<lparr>committed = Some ''x'', staged = []\<rparr>),
                (''v1/etcd/b'', \<lparr>committed = Some ''yy'', staged = []\<rparr>),
                (''v1/etcd/c'', \<lparr>committed = Some ''zzz'', staged = []\<rparr>)],
      faults = [], calls = [], page_size = 2\<rparr>"

definition ex_full :: service where
  "ex_full =
     \<lparr>stored = map (\<lambda>i. (''v1/etcd/'' @ replicate (Suc i) CHR ''a'',
                          \<lparr>committed = Some ''x'', staged = []\<rparr>)) [0..<5001],
      faults = [], calls = [], page_size = 5000\<rparr>"

section \<open>Properties of the random block identifiers\<close>


lemma signed_take_bit_63_id:
  fixes k :: int
  assumes "0 \<le> k" "k < 2 ^ 63"
  shows "signed_take_bit 63 k = k"
  using assms by (intro signed_take_bit_int_eq_self) simp_all













section \<open>Properties of the service calls\<close>

lemma request_effect:
  "request c s = (e, s') \<Longrightarrow> stored s' = stored s \<and> calls s' = calls s @ [c]"
  by (auto simp: request_def split: list.splits)

lemma request_page_size: "request c s = (e, s') \<Longrightarrow> page_size s' = page_size s"
  by (auto simp: request_def split: list.splits)

lemma request_no_fault:
  "faults s = [] \<Longrightarrow> request c s = (None, s\<lparr>calls := calls s @ [c]\<rparr>)"
  by (simp add: request_def)

lemma CreateBlockBlob_ok:
  assumes "Blob_CreateBlockBlob b s = (None, s1)"
  shows "map_of (stored s1) (Blob_Name b) = Some \<lparr>committed = Some [], staged = []\<rparr>"
    and "calls s1 = calls s @ [CreateBlockBlob (Blob_Name b)]"
proof -
  obtain e s' where r: "request (CreateBlockBlob (Blob_Name b)) s = (e, s')"
    by (cases "request (CreateBlockBlob (Blob_Name b)) s")
  with assms have e: "e = None"
    by (cases e) (simp_all add: Blob_CreateBlockBlob_def)
  with assms r have s1: "s1 = s'\<lparr>stored :=
      AList.update (Blob_Name b) \<lparr>committed = Some [], staged = []\<rparr> (stored s')\<rparr>"
    by (simp add: Blob_CreateBlockBlob_def)
  show "map_of (stored s1) (Blob_Name b) = Some \<lparr>committed = Some [], staged = []\<rparr>"
    by (simp add: s1 update_conv')
  show "calls s1 = calls s @ [CreateBlockBlob (Blob_Name b)]"
    using request_effect [OF r] by (simp add: s1)
qed

lemma CreateBlockBlob_failed:
  assumes "Blob_CreateBlockBlob b s = (Some e, s1)"
  shows "stored s1 = stored s \<and> calls s1 = calls s @ [CreateBlockBlob (Blob_Name b)]"
proof -
  obtain e' s' where r: "request (CreateBlockBlob (Blob_Name b)) s = (e', s')"
    by (cases "request (CreateBlockBlob (Blob_Name b)) s")
  with assms have "s1 = s'"
    by (cases e') (simp_all add: Blob_CreateBlockBlob_def)
  then show ?thesis using request_effect [OF r] by simp
qed

lemma PutBlock_ok:
  assumes "Blob_PutBlock b blockID chunk s = (None, s1)"
  shows "map_of (stored s1) (Blob_Name b)
           = Some (stage_block blockID chunk (map_of (stored s) (Blob_Name b)))"
    and "calls s1 = calls s @ [PutBlock (Blob_Name b) blockID chunk]"
proof -
  obtain e s' where r: "request (PutBlock (Blob_Name b) blockID chunk) s = (e, s')"
    by (cases "request (PutBlock (Blob_Name b) blockID chunk) s")
  with assms have e: "e = None"
    by (cases e) (simp_all add: Blob_PutBlock_def)
  with assms r have s1: "s1 = s'\<lparr>stored := AList.update (Blob_Name b)
      (stage_block blockID chunk (map_of (stored s') (Blob_Name b))) (stored s')\<rparr>"
    by (simp add: Blob_PutBlock_def)
  show "map_of (stored s1) (Blob_Name b)
           = Some (stage_block blockID chunk (map_of (stored s) (Blob_Name b)))"
    using request_effect [OF r] by (simp add: s1 update_conv')
  show "calls s1 = calls s @ [PutBlock (Blob_Name b) blockID chunk]"
    using request_effect [OF r] by (simp add: s1)
qed

lemma PutBlock_failed:
  assumes "Blob_PutBlock b blockID chunk s = (Some e, s1)"
  shows "stored s1 = stored s \<and> calls s1 = calls s @ [PutBlock (Blob_Name b) blockID chunk]"
proof -
  obtain e' s' where r: "request (PutBlock (Blob_Name b) blockID chunk) s = (e', s')"
    by (cases "request (PutBlock (Blob_Name b) blockID chunk) s")
  with assms have "s1 = s'"
    by (cases e') (simp_all add: Blob_PutBlock_def)
  then show ?thesis using request_effect [OF r] by simp
qed

lemma Blob_Get_effect:
  assumes "Blob_Get b s = (res, s1)"
  shows "stored s1 = stored s \<and> calls s1 = calls s @ [GetBlob (Blob_Name b)]"
proof -
  obtain e s' where r: "request (GetBlob (Blob_Name b)) s = (e, s')"
    by (cases "request (GetBlob (Blob_Name b)) s")
  with assms have "s1 = s'"
    by (cases e) (auto simp: Blob_Get_def split: option.splits)
  then show ?thesis using request_effect [OF r] by simp
qed

lemma Blob_Get_ok:
  assumes "Blob_Get b s = (Inr content, s1)"
  shows "read_committed s (Blob_Name b) = Some content"
proof -
  obtain e s' where r: "request (GetBlob (Blob_Name b)) s = (e, s')"
    by (cases "request (GetBlob (Blob_Name b)) s")
  then have "stored s' = stored s" using request_effect by blast
  then have "read_committed s' = read_committed s"
    by (simp add: read_committed_def fun_eq_iff)
  with assms r show ?thesis
    by (cases e) (auto simp: Blob_Get_def split: option.splits)
qed

lemma Blob_Delete_calls:
  assumes "Blob_Delete b s = (res, s1)"
  shows "calls s1 = calls s @ [DeleteBlob (Blob_Name b)]"
proof -
  obtain e s' where r: "request (DeleteBlob (Blob_Name b)) s = (e, s')"
    by (cases "request (DeleteBlob (Blob_Name b)) s")
  with assms have "calls s1 = calls s'"
    by (cases e) (auto simp: Blob_Delete_def split: option.splits)
  then show ?thesis using request_effect [OF r] by simp
qed

section \<open>Properties of Put, Get and Delete\<close>

lemma Put_cases:
  assumes "Put w key chunk r s = Some (res, r', s')"
  defines "blob \<equiv> GetBlobReference (container w) (path_Join [v1, prefix w, key])"
  shows "(\<exists>e. Blob_CreateBlockBlob blob s = (Some e, s')
            \<and> res = Some (fmt_Errorf ''create block blob failed: '' e) \<and> r' = r)
       \<or> (\<exists>s1 bs. Blob_CreateBlockBlob blob s = (None, s1) \<and> randBytes 6 r = Some (bs, r')
            \<and> (\<exists>e2. Blob_PutBlock blob (EncodeToString bs) chunk s1 = (e2, s')
                  \<and> res = map_option (fmt_Errorf ''put block failed: '') e2))"
proof -
  obtain e1 s1 where c: "Blob_CreateBlockBlob blob s = (e1, s1)"
    by (cases "Blob_CreateBlockBlob blob s")
  show ?thesis
  proof (cases e1)
    case (Some e)
    with assms(1) c show ?thesis
      by (simp add: Put_def Let_def blob_def)
  next
    case None
    obtain bs r1 where rb: "randBytes 6 r = Some (bs, r1)"
      using assms(1) c None by (cases "randBytes 6 r") (auto simp: Put_def Let_def blob_def)
    obtain e2 s2 where p: "Blob_PutBlock blob (EncodeToString bs) chunk s1 = (e2, s2)"
      by (cases "Blob_PutBlock blob (EncodeToString bs) chunk s1")
    from assms(1) c None rb p show ?thesis
      by (cases e2) (simp_all add: Put_def Let_def blob_def)
  qed
qed

text \<open>
  C1. Reading back through \<open>Get\<close> the key just written through \<open>Put\<close>, both calls
  succeeding, does not give the bytes written: \<open>Put\<close> creates the blob with an empty
  content and stages the chunk as a block that nothing commits, so the chunk sits among
  the staged blocks of the blob and the stream that \<open>Get\<close> returns is empty.
\<close>

theorem Put_then_Get_reads_empty:
  assumes "Put w key chunk r s = Some (None, r', s1)"
      and "Get w key s1 = ((Some resp, None), s2)"
  shows "resp = []
       \<and> (\<exists>blockID. map_of (stored s1) (path_Join [v1, prefix w, key])
             = Some \<lparr>committed = Some [], staged = [(blockID, chunk)]\<rparr>)"
proof -
  define blob where "blob = GetBlobReference (container w) (path_Join [v1, prefix w, key])"
  have n: "Blob_Name blob = path_Join [v1, prefix w, key]"
    by (simp add: blob_def GetBlobReference_def)
  from Put_cases [OF assms(1)] obtain s0 bs where
    c: "Blob_CreateBlockBlob blob s = (None, s0)" and
    p: "Blob_PutBlock blob (EncodeToString bs) chunk s0 = (None, s1)"
    by (auto simp: blob_def)
  have st: "map_of (stored s1) (Blob_Name blob)
      = Some \<lparr>committed = Some [], staged = [(EncodeToString bs, chunk)]\<rparr>"
    using PutBlock_ok(1) [OF p] CreateBlockBlob_ok(1) [OF c]
    by (simp add: stage_block_def)
  have "Blob_Get blob s1 = (Inr resp, s2)"
    using assms(2)
    by (cases "Blob_Get blob s1") (auto simp: Get_def Let_def blob_def split: sum.splits)
  from Blob_Get_ok [OF this] st have "resp = []"
    by (simp add: read_committed_def)
  with st n show ?thesis by auto
qed

theorem Put_then_Get_reads_empty_witness:
  "(\<exists>r'. Put ex_abs ''3.1.0_1'' ''data'' (\<lambda>i. 0) ex_empty = Some (None, r', ex_written))
   \<and> Get ex_abs ''3.1.0_1'' ex_written
       = ((Some [], None), ex_written\<lparr>calls := calls ex_written @ [GetBlob ''v1/etcd/3.1.0_1'']\<rparr>)
   \<and> ([] :: byte list) \<noteq> ''data''
   \<and> (\<exists>blockID. map_of (stored ex_written) (path_Join [v1, prefix ex_abs, ''3.1.0_1''])
         = Some \<lparr>committed = Some [], staged = [(blockID, ''data'')]\<rparr>)"
proof -
  have "case Put ex_abs ''3.1.0_1'' ''data'' (\<lambda>i. 0) ex_empty of
          None \<Rightarrow> False
        | Some (res, r', s') \<Rightarrow> res = None \<and> s' = ex_written"
    by code_simp
  then obtain r' where
    p: "Put ex_abs ''3.1.0_1'' ''data'' (\<lambda>i. 0) ex_empty = Some (None, r', ex_written)"
    by (auto split: option.splits)
  have g: "Get ex_abs ''3.1.0_1'' ex_written
       = ((Some [], None), ex_written\<lparr>calls := calls ex_written @ [GetBlob ''v1/etcd/3.1.0_1'']\<rparr>)"
    by code_simp
  from Put_then_Get_reads_empty [OF p g] p g show ?thesis
    by blast
qed

text \<open>
  C6. When a store call made by \<open>Put\<close>, \<open>Get\<close> or \<open>Delete\<close> fails, the adapter returns
  an error to the caller. \<open>Put\<close> returns a new error whose message is
  \<open>create block blob failed: \<close> or \<open>put block failed: \<close> followed by the message of
  the store's error; \<open>Get\<close> and \<open>Delete\<close> return the store's error unchanged. The key
  is not made part of any of these errors.
\<close>

theorem store_failure_propagates:
  assumes "blob = GetBlobReference (container w) (path_Join [v1, prefix w, key])"
  shows "(Blob_CreateBlockBlob blob s = (Some e, s')
            \<longrightarrow> Put w key chunk r s
                = Some (Some (Err (''create block blob failed: '' @ Error e)), r, s'))
       \<and> (Blob_CreateBlockBlob blob s = (None, s') \<and> randBytes 6 r = Some (bs, r')
            \<and> Blob_PutBlock blob (EncodeToString bs) chunk s' = (Some e, s'')
            \<longrightarrow> Put w key chunk r s
                = Some (Some (Err (''put block failed: '' @ Error e)), r', s''))
       \<and> (Blob_Get blob s = (Inl e, s') \<longrightarrow> Get w key s = ((None, Some e), s'))
       \<and> (Blob_Delete blob s = (Some e, s') \<longrightarrow> Delete w key s = (Some e, s'))"
proof -
  have "Blob_CreateBlockBlob blob s = (Some e, s')
            \<Longrightarrow> Put w key chunk r s
                = Some (Some (Err (''create block blob failed: '' @ Error e)), r, s')"
    by (simp add: Put_def Let_def assms fmt_Errorf_def)
  moreover have "Blob_CreateBlockBlob blob s = (None, s') \<Longrightarrow> randBytes 6 r = Some (bs, r')
            \<Longrightarrow> Blob_PutBlock blob (EncodeToString bs) chunk s' = (Some e, s'')
            \<Longrightarrow> Put w key chunk r s
                = Some (Some (Err (''put block failed: '' @ Error e)), r', s'')"
    by (simp add: Put_def Let_def assms fmt_Errorf_def)
  moreover have "Blob_Get blob s = (Inl e, s') \<Longrightarrow> Get w key s = ((None, Some e), s')"
    by (simp add: Get_def Let_def assms)
  moreover have "Blob_Delete blob s = (Some e, s') \<Longrightarrow> Delete w key s = (Some e, s')"
    by (simp add: Delete_def Let_def assms)
  ultimately show ?thesis by blast
qed

theorem store_failure_propagates_witness:
  "\<exists>blob sc r1 s1 s2 sg sd.
     blob = GetBlobReference (container ex_abs) (path_Join [v1, prefix ex_abs, ''3.1.0_1''])
   \<and> Blob_CreateBlockBlob blob ex_failing = (Some (Err ''connection reset''), sc)
   \<and> Put ex_abs ''3.1.0_1'' ''data'' (\<lambda>i. 0) ex_failing
       = Some (Some (Err ''create block blob failed: connection reset''), \<lambda>i. 0, sc)
   \<and> Blob_CreateBlockBlob blob ex_failing_second = (None, s1)
   \<and> randBytes 6 (\<lambda>i. 0) = Some (''aaaaaa'', r1)
   \<and> Blob_PutBlock blob (EncodeToString ''aaaaaa'') ''data'' s1
       = (Some (Err ''connection reset''), s2)
   \<and> Put ex_abs ''3.1.0_1'' ''data'' (\<lambda>i. 0) ex_failing_second
       = Some (Some (Err ''put block failed: connection reset''), r1, s2)
   \<and> Blob_Get blob ex_failing = (Inl (Err ''connection reset''), sg)
   \<and> Get ex_abs ''3.1.0_1'' ex_failing = ((None, Some (Err ''connection reset'')), sg)
   \<and> Blob_Delete blob ex_failing = (Some (Err ''connection reset''), sd)
   \<and> Delete ex_abs ''3.1.0_1'' ex_failing = (Some (Err ''connection reset''), sd)"
proof -
  define blob where
    "blob = GetBlobReference (container ex_abs) (path_Join [v1, prefix ex_abs, ''3.1.0_1''])"
  define sc where "sc = snd (Blob_CreateBlockBlob blob ex_failing)"
  define s1 where "s1 = snd (Blob_CreateBlockBlob blob ex_failing_second)"
  define s2 where "s2 = snd (Blob_PutBlock blob (EncodeToString ''aaaaaa'') ''data'' s1)"
  define sg where "sg = snd (Blob_Get blob ex_failing)"
  define sd where "sd = snd (Blob_Delete blob ex_failing)"
  have c: "Blob_CreateBlockBlob blob ex_failing = (Some (Err ''connection reset''), sc)"
    unfolding sc_def blob_def by code_simp
  have c2: "Blob_CreateBlockBlob blob ex_failing_second = (None, s1)"
    unfolding s1_def blob_def by code_simp
  have "map_option fst (randBytes 6 (\<lambda>i. 0)) = Some ''aaaaaa''"
    by code_simp
  then obtain r1 where rb: "randBytes 6 (\<lambda>i. 0) = Some (''aaaaaa'', r1)"
    by (cases "randBytes 6 (\<lambda>i. 0)") auto
  have p: "Blob_PutBlock blob (EncodeToString ''aaaaaa'') ''data'' s1
       = (Some (Err ''connection reset''), s2)"
    unfolding s2_def s1_def blob_def by code_simp
  have g: "Blob_Get blob ex_failing = (Inl (Err ''connection reset''), sg)"
    unfolding sg_def blob_def by code_simp
  have d: "Blob_Delete blob ex_failing = (Some (Err ''connection reset''), sd)"
    unfolding sd_def blob_def by code_simp
  from store_failure_propagates [OF blob_def, where e = "Err ''connection reset''"
      and chunk = "''data''" and r = "\<lambda>i. 0" and s = ex_failing and s' = sc] c
  have "Put ex_abs ''3.1.0_1'' ''data'' (\<lambda>i. 0) ex_failing
       = Some (Some (Err ''create block blob failed: connection reset''), \<lambda>i. 0, sc)"
    by simp
  moreover from store_failure_propagates [OF blob_def, where e = "Err ''connection reset''"
      and chunk = "''data''" and r = "\<lambda>i. 0" and s = ex_failing_second and s' = s1 and bs = "''aaaaaa''" and r' = r1 and s'' = s2]
    c2 rb p
  have "Put ex_abs ''3.1.0_1'' ''data'' (\<lambda>i. 0) ex_failing_second
       = Some (Some (Err ''put block failed: connection reset''), r1, s2)"
    by simp
  moreover from store_failure_propagates [OF blob_def, where e = "Err ''connection reset''"
      and chunk = "''data''" and r = "\<lambda>i. 0" and s = ex_failing and s' = sg] g
  have "Get ex_abs ''3.1.0_1'' ex_failing = ((None, Some (Err ''connection reset'')), sg)"
    by blast
  moreover from store_failure_propagates [OF blob_def, where e = "Err ''connection reset''"
      and chunk = "''data''" and r = "\<lambda>i. 0" and s = ex_failing and s' = sd] d
  have "Delete ex_abs ''3.1.0_1'' ex_failing = (Some (Err ''connection reset''), sd)"
    by blast
  ultimately show ?thesis using blob_def c c2 rb p g d by blast
qed

theorem store_failure_not_wrapped_with_key:
  "Delete ex_abs ''3.1.0_1'' ex_failing
     = (Some (Err ''connection reset''),
        ex_empty\<lparr>calls := [DeleteBlob ''v1/etcd/3.1.0_1'']\<rparr>)
   \<and> \<not> mentions (Err ''connection reset'') ''3.1.0_1''
   \<and> Get ex_abs ''3.1.0_1'' ex_failing
     = ((None, Some (Err ''connection reset'')),
        ex_empty\<lparr>calls := [GetBlob ''v1/etcd/3.1.0_1'']\<rparr>)
   \<and> map_option fst (Put ex_abs ''3.1.0_1'' ''data'' (\<lambda>i. 0) ex_failing)
     = Some (Some (Err ''create block blob failed: connection reset''))
   \<and> \<not> mentions (Err ''create block blob failed: connection reset'') ''3.1.0_1''"
  by code_simp

section \<open>Properties of CopyPrefix\<close>

declare path_Join.simps [simp del]

lemma read_committed_cong: "stored s' = stored s \<Longrightarrow> read_committed s' = read_committed s"
  by (simp add: read_committed_def fun_eq_iff)

lemma Blob_Copy_calls:
  assumes "Blob_Copy b src s = (res, s1)"
  shows "calls s1 = calls s @ [CopyBlob (Blob_Name b) src]"
proof -
  obtain e s' where r: "request (CopyBlob (Blob_Name b) src) s = (e, s')"
    by (cases "request (CopyBlob (Blob_Name b) src) s")
  with assms have "calls s1 = calls s'"
    by (cases e) (auto simp: Blob_Copy_def Let_def split: option.splits if_splits)
  then show ?thesis using request_effect [OF r] by simp
qed

lemma Blob_Copy_failed:
  assumes "Blob_Copy b src s = (Some err, s1)"
  shows "stored s1 = stored s"
proof -
  obtain e s' where r: "request (CopyBlob (Blob_Name b) src) s = (e, s')"
    by (cases "request (CopyBlob (Blob_Name b) src) s")
  with assms have "stored s1 = stored s'"
    by (cases e) (auto simp: Blob_Copy_def Let_def split: option.splits if_splits)
  then show ?thesis using request_effect [OF r] by simp
qed

lemma Blob_Copy_ok:
  assumes "Blob_Copy b src s = (None, s1)"
  shows "\<exists>content. read_committed s
                (drop (length (Name (Blob_Container b) @ ''/'')) (source_path src))
              = Some content
           \<and> has_prefix (source_path src) (Name (Blob_Container b) @ ''/'')
           \<and> stored s1 = AList.update (Blob_Name b)
                \<lparr>committed = Some content, staged = []\<rparr> (stored s)"
proof -
  obtain e s' where r: "request (CopyBlob (Blob_Name b) src) s = (e, s')"
    by (cases "request (CopyBlob (Blob_Name b) src) s")
  then have st: "stored s' = stored s" using request_effect by blast
  from assms r show ?thesis
    by (cases e)
      (auto simp: Blob_Copy_def Let_def st read_committed_cong [OF st]
            split: option.splits if_splits)
qed

lemma Blob_Copy_reads:
  assumes "Blob_Copy b src s = (None, s1)"
  shows "\<exists>content. read_committed s1 = (read_committed s)(Blob_Name b := Some content)"
proof -
  from Blob_Copy_ok [OF assms] obtain content where
    "stored s1 = AList.update (Blob_Name b) \<lparr>committed = Some content, staged = []\<rparr> (stored s)"
    by blast
  then have "read_committed s1 = (read_committed s)(Blob_Name b := Some content)"
    by (simp add: read_committed_def fun_eq_iff update_conv')
  then show ?thesis ..
qed

lemma Blob_Copy_written:
  assumes "Blob_Copy b src s = (None, s1)"
  shows "read_committed s1 (Blob_Name b) \<noteq> None"
proof -
  from Blob_Copy_reads [OF assms] obtain content where
    "read_committed s1 = (read_committed s)(Blob_Name b := Some content)" ..
  then show ?thesis by simp
qed

lemma Blob_Copy_keeps:
  assumes "Blob_Copy b src s = (res, s1)" and "read_committed s k \<noteq> None"
  shows "read_committed s1 k \<noteq> None"
proof (cases res)
  case None
  with assms(1) have "Blob_Copy b src s = (None, s1)" by simp
  from Blob_Copy_reads [OF this] obtain content where
    "read_committed s1 = (read_committed s)(Blob_Name b := Some content)" ..
  with assms(2) show ?thesis by simp
next
  case (Some err)
  with assms(1) have "Blob_Copy b src s = (Some err, s1)" by simp
  from read_committed_cong [OF Blob_Copy_failed [OF this]] assms(2) show ?thesis
    by simp
qed

lemma CopyPrefix_loop_append:
  "CopyPrefix_loop w f (ks1 @ ks2) s =
     (case CopyPrefix_loop w f ks1 s of
        (Some e, s1) \<Rightarrow> (Some e, s1)
      | (None, s1) \<Rightarrow> CopyPrefix_loop w f ks2 s1)"
proof (induction ks1 arbitrary: s)
  case Nil
  show ?case by simp
next
  case (Cons k ks1)
  obtain e s1 where c: "Blob_Copy (GetBlobReference (container w) k)
      (path_Join [Name (container w), v1, f, k]) s = (e, s1)"
    by (cases "Blob_Copy (GetBlobReference (container w) k)
      (path_Join [Name (container w), v1, f, k]) s")
  show ?case
    by (cases e) (simp_all add: Let_def c Cons.IH)
qed

lemma CopyPrefix_loop_ok:
  assumes "CopyPrefix_loop w f ks s = (None, s')"
  shows "calls s' = calls s
           @ map (\<lambda>k. CopyBlob k (path_Join [Name (container w), v1, f, k])) ks
       \<and> (\<forall>k \<in> set ks. read_committed s' k \<noteq> None)
       \<and> (\<forall>k. read_committed s k \<noteq> None \<longrightarrow> read_committed s' k \<noteq> None)"
  using assms
proof (induction ks arbitrary: s)
  case Nil
  then show ?case by simp
next
  case (Cons k ks)
  define b where "b = GetBlobReference (container w) k"
  have n: "Blob_Name b = k" by (simp add: b_def GetBlobReference_def)
  obtain e s1 where c: "Blob_Copy b (path_Join [Name (container w), v1, f, k]) s = (e, s1)"
    by (cases "Blob_Copy b (path_Join [Name (container w), v1, f, k]) s")
  with Cons.prems have e: "e = None" and l: "CopyPrefix_loop w f ks s1 = (None, s')"
    by (cases e; simp add: Let_def b_def)+
  note ih = Cons.IH [OF l]
  have "read_committed s1 k \<noteq> None"
    using Blob_Copy_written [of b _ s s1] c e n by auto
  with ih have "read_committed s' k \<noteq> None" by blast
  moreover have "\<forall>k'. read_committed s k' \<noteq> None \<longrightarrow> read_committed s' k' \<noteq> None"
    using Blob_Copy_keeps [OF c] ih by blast
  moreover have "calls s' = calls s
      @ map (\<lambda>k. CopyBlob k (path_Join [Name (container w), v1, f, k])) (k # ks)"
    using Blob_Copy_calls [OF c] ih n by simp
  ultimately show ?case using ih by simp
qed

lemma CopyPrefix_loop_failed:
  assumes "CopyPrefix_loop w f ks s = (Some e, s')"
  shows "\<exists>ks1 k ks2 s1. ks = ks1 @ k # ks2
           \<and> CopyPrefix_loop w f ks1 s = (None, s1)
           \<and> Blob_Copy (GetBlobReference (container w) k)
                (path_Join [Name (container w), v1, f, k]) s1 = (Some e, s')"
  using assms
proof (induction ks arbitrary: s)
  case Nil
  then show ?case by simp
next
  case (Cons k ks)
  define b where "b = GetBlobReference (container w) k"
  obtain e1 s1 where c: "Blob_Copy b (path_Join [Name (container w), v1, f, k]) s = (e1, s1)"
    by (cases "Blob_Copy b (path_Join [Name (container w), v1, f, k]) s")
  show ?case
  proof (cases e1)
    case (Some err)
    with Cons.prems c have "err = e" "s1 = s'"
      by (simp_all add: Let_def b_def)
    with c Some have "k # ks = [] @ k # ks \<and> CopyPrefix_loop w f [] s = (None, s)
        \<and> Blob_Copy (GetBlobReference (container w) k)
             (path_Join [Name (container w), v1, f, k]) s = (Some e, s')"
      by (simp add: b_def)
    then show ?thesis by blast
  next
    case None
    with Cons.prems c have "CopyPrefix_loop w f ks s1 = (Some e, s')"
      by (simp add: Let_def b_def)
    from Cons.IH [OF this] obtain ks1 k' ks2 s2 where
      d: "ks = ks1 @ k' # ks2" "CopyPrefix_loop w f ks1 s1 = (None, s2)"
         "Blob_Copy (GetBlobReference (container w) k')
             (path_Join [Name (container w), v1, f, k']) s2 = (Some e, s')"
      by blast
    from c None d(2) have "CopyPrefix_loop w f (k # ks1) s = (None, s2)"
      by (simp add: Let_def b_def)
    with d have "k # ks = (k # ks1) @ k' # ks2
        \<and> CopyPrefix_loop w f (k # ks1) s = (None, s2)
        \<and> Blob_Copy (GetBlobReference (container w) k')
             (path_Join [Name (container w), v1, f, k']) s2 = (Some e, s')"
      by simp
    then show ?thesis by blast
  qed
qed

lemma CopyPrefix_loop_stops:
  assumes "CopyPrefix_loop w f ks1 s = (None, s1)"
      and "Blob_Copy (GetBlobReference (container w) k)
             (path_Join [Name (container w), v1, f, k]) s1 = (Some e, s2)"
  shows "CopyPrefix_loop w f (ks1 @ k # ks2) s = (Some e, s2)"
  using assms by (simp add: CopyPrefix_loop_append Let_def)

lemma CopyPrefix_listed:
  assumes "list w f s = Some ((sz, Some keys, None), s0)"
  shows "CopyPrefix w f s = Some (CopyPrefix_loop w f keys s0)"
  using assms by (simp add: CopyPrefix_def)

text \<open>
  C4. A successful \<open>CopyPrefix\<close> does not copy the objects listed under the source
  prefix into the adapter's own prefix: for every key listed it asks for one copy whose
  destination is the blob named by the relative key alone, without the schema-version
  segment and without the adapter's prefix, and that blob is the one written.
\<close>

theorem CopyPrefix_destination_is_bare_key:
  assumes "list w f s = Some ((sz, Some keys, None), s0)"
      and "CopyPrefix w f s = Some (None, s')"
  shows "calls s' = calls s0
           @ map (\<lambda>k. CopyBlob k (path_Join [Name (container w), v1, f, k])) keys
       \<and> (\<forall>k \<in> set keys. read_committed s' k \<noteq> None)"
proof -
  from assms have "CopyPrefix_loop w f keys s0 = (None, s')"
    by (simp add: CopyPrefix_listed)
  from CopyPrefix_loop_ok [OF this] show ?thesis by blast
qed

theorem CopyPrefix_destination_is_bare_key_witness:
  "\<exists>sz s0 s'.
     list ex_abs ''staged'' ex_staged = Some ((sz, Some [''a'', ''b'', ''c''], None), s0)
   \<and> CopyPrefix ex_abs ''staged'' ex_staged = Some (None, s')
   \<and> calls s' = [ListBlobs ''v1/staged/'', CopyBlob ''a'' ''backups/v1/staged/a'',
                  CopyBlob ''b'' ''backups/v1/staged/b'', CopyBlob ''c'' ''backups/v1/staged/c'']
   \<and> read_committed s' ''a'' = Some ''xy''
   \<and> read_committed s' ''v1/etcd/a'' = None
   \<and> map_option fst (List ex_abs s') = Some (Some [], None)"
proof -
  define s0 where "s0 = snd (the (list ex_abs ''staged'' ex_staged))"
  define s' where "s' = snd (the (CopyPrefix ex_abs ''staged'' ex_staged))"
  have l: "list ex_abs ''staged'' ex_staged = Some ((6, Some [''a'', ''b'', ''c''], None), s0)"
    unfolding s0_def by code_simp
  have c: "CopyPrefix ex_abs ''staged'' ex_staged = Some (None, s')"
    unfolding s'_def by code_simp
  have s0: "calls s0 = [ListBlobs ''v1/staged/'']"
    unfolding s0_def by code_simp
  have m: "map (\<lambda>k. CopyBlob k (path_Join [Name (container ex_abs), v1, ''staged'', k]))
             [''a'', ''b'', ''c'']
      = [CopyBlob ''a'' ''backups/v1/staged/a'', CopyBlob ''b'' ''backups/v1/staged/b'',
         CopyBlob ''c'' ''backups/v1/staged/c'']"
    by code_simp
  have r1: "read_committed s' ''a'' = Some ''xy''"
    unfolding s'_def by code_simp
  have r2: "read_committed s' ''v1/etcd/a'' = None"
    unfolding s'_def by code_simp
  have r3: "map_option fst (List ex_abs s') = Some (Some [], None)"
    unfolding s'_def by code_simp
  from CopyPrefix_destination_is_bare_key [OF l c] s0 m
  have "calls s' = [ListBlobs ''v1/staged/'', CopyBlob ''a'' ''backups/v1/staged/a'',
                  CopyBlob ''b'' ''backups/v1/staged/b'', CopyBlob ''c'' ''backups/v1/staged/c'']"
    by simp
  with l c r1 r2 r3 show ?thesis by blast
qed

text \<open>
  C10. \<open>CopyPrefix\<close> stops at the first copy that fails and returns the error of that
  copy as it is. When the copies of the keys before \<open>k\<close> in the listing succeed and the
  copy of \<open>k\<close> fails with \<open>e\<close>, \<open>CopyPrefix\<close> returns \<open>e\<close> in the state in which
  that copy left the service: the calls it has sent are the copies of the keys up to
  \<open>k\<close> and no other, the failed copy has changed no blob, and the keys before \<open>k\<close> are
  written. And every error that \<open>CopyPrefix\<close> returns after a listing that succeeded
  is the error of one such copy, never one made of several failures.
\<close>

theorem CopyPrefix_stops_at_first_failure:
  assumes "list w f s = Some ((sz, Some keys, None), s0)"
  shows "(keys = ks1 @ k # ks2 \<and> CopyPrefix_loop w f ks1 s0 = (None, s1)
            \<and> Blob_Copy (GetBlobReference (container w) k)
                 (path_Join [Name (container w), v1, f, k]) s1 = (Some e, s2)
          \<longrightarrow> CopyPrefix w f s = Some (Some e, s2)
            \<and> calls s2 = calls s0
                 @ map (\<lambda>k. CopyBlob k (path_Join [Name (container w), v1, f, k])) (ks1 @ [k])
            \<and> stored s2 = stored s1
            \<and> (\<forall>k' \<in> set ks1. read_committed s2 k' \<noteq> None))
       \<and> (CopyPrefix w f s = Some (Some e', s2')
          \<longrightarrow> (\<exists>ks1 k ks2 s1. keys = ks1 @ k # ks2
                 \<and> CopyPrefix_loop w f ks1 s0 = (None, s1)
                 \<and> Blob_Copy (GetBlobReference (container w) k)
                      (path_Join [Name (container w), v1, f, k]) s1 = (Some e', s2')))"
proof -
  have a: "CopyPrefix w f s = Some (Some e, s2)
            \<and> calls s2 = calls s0
                 @ map (\<lambda>k. CopyBlob k (path_Join [Name (container w), v1, f, k])) (ks1 @ [k])
            \<and> stored s2 = stored s1
            \<and> (\<forall>k' \<in> set ks1. read_committed s2 k' \<noteq> None)"
    if k: "keys = ks1 @ k # ks2" and l: "CopyPrefix_loop w f ks1 s0 = (None, s1)"
      and c: "Blob_Copy (GetBlobReference (container w) k)
                 (path_Join [Name (container w), v1, f, k]) s1 = (Some e, s2)"
  proof -
    have "CopyPrefix w f s = Some (Some e, s2)"
      using CopyPrefix_listed [OF assms] CopyPrefix_loop_stops [OF l c] k by simp
    moreover have "calls s2 = calls s0
        @ map (\<lambda>k. CopyBlob k (path_Join [Name (container w), v1, f, k])) (ks1 @ [k])"
      using CopyPrefix_loop_ok [OF l] Blob_Copy_calls [OF c]
      by (simp add: GetBlobReference_def)
    moreover have st: "stored s2 = stored s1"
      by (rule Blob_Copy_failed [OF c])
    moreover have "\<forall>k' \<in> set ks1. read_committed s2 k' \<noteq> None"
      using CopyPrefix_loop_ok [OF l] read_committed_cong [OF st] by simp
    ultimately show ?thesis by blast
  qed
  have b: "\<exists>ks1 k ks2 s1. keys = ks1 @ k # ks2
                 \<and> CopyPrefix_loop w f ks1 s0 = (None, s1)
                 \<and> Blob_Copy (GetBlobReference (container w) k)
                      (path_Join [Name (container w), v1, f, k]) s1 = (Some e', s2')"
    if "CopyPrefix w f s = Some (Some e', s2')"
  proof -
    from that have "CopyPrefix_loop w f keys s0 = (Some e', s2')"
      by (simp add: CopyPrefix_listed [OF assms])
    from CopyPrefix_loop_failed [OF this] show ?thesis .
  qed
  from a b show ?thesis by blast
qed

theorem CopyPrefix_stops_at_first_failure_witness:
  "\<exists>sz s0 s1 s2.
     list ex_abs ''staged'' ex_staged_failing
       = Some ((sz, Some ([''a''] @ ''b'' # [''c'']), None), s0)
   \<and> CopyPrefix_loop ex_abs ''staged'' [''a''] s0 = (None, s1)
   \<and> Blob_Copy (GetBlobReference (container ex_abs) ''b'')
        (path_Join [Name (container ex_abs), v1, ''staged'', ''b'']) s1
       = (Some (Err ''connection reset''), s2)
   \<and> CopyPrefix ex_abs ''staged'' ex_staged_failing = Some (Some (Err ''connection reset''), s2)
   \<and> calls s2 = [ListBlobs ''v1/staged/'', CopyBlob ''a'' ''backups/v1/staged/a'',
                  CopyBlob ''b'' ''backups/v1/staged/b'']
   \<and> read_committed s2 ''a'' = Some ''xy''
   \<and> read_committed s2 ''b'' = None
   \<and> read_committed s2 ''c'' = None
   \<and> (\<exists>ks1 k ks2 s1'. [''a''] @ ''b'' # [''c''] = ks1 @ k # ks2
         \<and> CopyPrefix_loop ex_abs ''staged'' ks1 s0 = (None, s1')
         \<and> Blob_Copy (GetBlobReference (container ex_abs) k)
              (path_Join [Name (container ex_abs), v1, ''staged'', k]) s1'
             = (Some (Err ''connection reset''), s2))"
proof -
  define s0 where "s0 = snd (the (list ex_abs ''staged'' ex_staged_failing))"
  define s1 where "s1 = snd (CopyPrefix_loop ex_abs ''staged'' [''a''] s0)"
  define s2 where "s2 = snd (Blob_Copy (GetBlobReference (container ex_abs) ''b'')
        (path_Join [Name (container ex_abs), v1, ''staged'', ''b'']) s1)"
  have l: "list ex_abs ''staged'' ex_staged_failing
       = Some ((6, Some ([''a''] @ ''b'' # [''c'']), None), s0)"
    unfolding s0_def by code_simp
  have p: "CopyPrefix_loop ex_abs ''staged'' [''a''] s0 = (None, s1)"
    unfolding s1_def s0_def by code_simp
  have c: "Blob_Copy (GetBlobReference (container ex_abs) ''b'')
        (path_Join [Name (container ex_abs), v1, ''staged'', ''b'']) s1
       = (Some (Err ''connection reset''), s2)"
    unfolding s2_def s1_def s0_def by code_simp
  have k: "calls s2 = [ListBlobs ''v1/staged/'', CopyBlob ''a'' ''backups/v1/staged/a'',
                  CopyBlob ''b'' ''backups/v1/staged/b'']"
    unfolding s2_def s1_def s0_def by code_simp
  have r: "read_committed s2 ''a'' = Some ''xy''" "read_committed s2 ''b'' = None"
      "read_committed s2 ''c'' = None"
    unfolding s2_def s1_def s0_def by code_simp+
  from CopyPrefix_stops_at_first_failure [OF l, of "[''a'']" "''b''" "[''c'']" s1
      "Err ''connection reset''" s2] p c
  have f: "CopyPrefix ex_abs ''staged'' ex_staged_failing
      = Some (Some (Err ''connection reset''), s2)"
    by blast
  from CopyPrefix_stops_at_first_failure [OF l, of _ _ _ _ _ _ "Err ''connection reset''" s2] f
  have "\<exists>ks1 k ks2 s1'. [''a''] @ ''b'' # [''c''] = ks1 @ k # ks2
         \<and> CopyPrefix_loop ex_abs ''staged'' ks1 s0 = (None, s1')
         \<and> Blob_Copy (GetBlobReference (container ex_abs) k)
              (path_Join [Name (container ex_abs), v1, ''staged'', k]) s1'
             = (Some (Err ''connection reset''), s2)"
    by blast
  with f l p c k r show ?thesis by blast
qed

section \<open>Properties of List and TotalSize\<close>

lemma has_prefix_append: "has_prefix s p \<longleftrightarrow> (\<exists>k. s = p @ k)"
proof
  assume "has_prefix s p"
  then have "s = p @ drop (length p) s"
    by (metis append_take_drop_id has_prefix_def)
  then show "\<exists>k. s = p @ k" ..
next
  assume "\<exists>k. s = p @ k"
  then show "has_prefix s p" by (auto simp: has_prefix_def)
qed

lemma slice_from_prefix:
  "has_prefix name p \<Longrightarrow> slice_from name (length p) = Some (drop (length p) name)"
  by (auto simp: has_prefix_append slice_from_def)

lemma listing_entries:
  "listing c p st
     = map (\<lambda>entry. \<lparr>Blob_Container = c, Blob_Name = fst entry,
                      Properties = \<lparr>ContentLength = of_nat (length (snd entry))\<rparr>\<rparr>)
         (under_prefix p (catalog_of st))"
proof (induction st)
  case Nil
  show ?case by (simp add: under_prefix_def)
next
  case (Cons a st)
  obtain name bst where a: "a = (name, bst)" by (cases a)
  show ?case
  proof (cases "committed bst")
    case None
    with a Cons.IH show ?thesis by simp
  next
    case (Some content)
    with a Cons.IH show ?thesis
      by (cases "has_prefix name p") (simp_all add: under_prefix_def)
  qed
qed

lemma list_loop_entries:
  assumes "list_all (\<lambda>entry. has_prefix (fst entry) p) es"
  shows "list_loop (length p)
           (map (\<lambda>entry. \<lparr>Blob_Container = c, Blob_Name = fst entry,
                            Properties = \<lparr>ContentLength = of_nat (length (snd entry))\<rparr>\<rparr>) es)
           (keys, sz)
     = Some (keys @ map (\<lambda>entry. drop (length p) (fst entry)) es,
             sz + of_nat (total_length es))"
  using assms
proof (induction es arbitrary: keys sz)
  case Nil
  show ?case by (simp add: total_length_def)
next
  case (Cons e es)
  from Cons.prems have h: "has_prefix (fst e) p"
    and r: "list_all (\<lambda>entry. has_prefix (fst entry) p) es"
    by simp_all
  from Cons.IH [OF r] slice_from_prefix [OF h] show ?case
    by (simp add: total_length_def add.assoc)
qed

lemma first_page_has_prefix:
  "list_all (\<lambda>entry. has_prefix (fst entry) p) (take k (under_prefix p cat))"
proof -
  have "set (take k (under_prefix p cat)) \<subseteq> set (under_prefix p cat)"
    by (rule set_take_subset)
  then show ?thesis
    by (auto simp: list_all_iff under_prefix_def)
qed

lemma ListBlobs_effect:
  assumes "Container_ListBlobs c params s = (res, s')"
  shows "stored s' = stored s \<and> calls s' = calls s @ [ListBlobs (Prefix params)]
       \<and> (\<forall>resp. res = Inr resp \<longrightarrow>
             resp_Prefix resp = Prefix params
             \<and> Blobs resp = take (page_size s) (listing c (Prefix params) (stored s)))"
proof -
  obtain e s1 where r: "request (ListBlobs (Prefix params)) s = (e, s1)"
    by (cases "request (ListBlobs (Prefix params)) s")
  from request_effect [OF r] request_page_size [OF r] assms r show ?thesis
    by (cases e) (auto simp: Container_ListBlobs_def Let_def)
qed

lemma list_result:
  "list w pfx s =
     (case Container_ListBlobs (container w) \<lparr>Prefix = listed_prefix pfx\<rparr> s of
        (Inl err, s1) \<Rightarrow> Some ((- 1, None, Some err), s1)
      | (Inr resp, s1) \<Rightarrow>
          Some ((of_nat (total_length (first_page s (listed_prefix pfx))),
                 Some (map (\<lambda>entry. drop (length (listed_prefix pfx)) (fst entry))
                          (first_page s (listed_prefix pfx))),
                 None), s1))"
proof -
  obtain res s1 where l: "Container_ListBlobs (container w) \<lparr>Prefix = listed_prefix pfx\<rparr> s
      = (res, s1)"
    by (cases "Container_ListBlobs (container w) \<lparr>Prefix = listed_prefix pfx\<rparr> s")
  show ?thesis
  proof (cases res)
    case (Inl err)
    with l show ?thesis by (simp add: list_def listed_prefix_def)
  next
    case (Inr resp)
    with ListBlobs_effect [OF l] have p: "resp_Prefix resp = listed_prefix pfx"
      and b: "Blobs resp
          = take (page_size s) (listing (container w) (listed_prefix pfx) (stored s))"
      by simp_all
    have "Blobs resp
        = map (\<lambda>entry. \<lparr>Blob_Container = container w, Blob_Name = fst entry,
                         Properties = \<lparr>ContentLength = of_nat (length (snd entry))\<rparr>\<rparr>)
            (first_page s (listed_prefix pfx))"
      by (simp add: b listing_entries first_page_def catalog_def take_map)
    then have "list_loop (length (resp_Prefix resp)) (Blobs resp) ([], 0)
        = Some (map (\<lambda>entry. drop (length (listed_prefix pfx)) (fst entry))
                  (first_page s (listed_prefix pfx)),
                of_nat (total_length (first_page s (listed_prefix pfx))))"
      using list_loop_entries
          [OF first_page_has_prefix [of "listed_prefix pfx" "page_size s" "catalog s"],
           where c = "container w" and keys = "[]" and sz = 0]
      by (simp add: p first_page_def)
    with l Inr show ?thesis
      by (simp add: list_def listed_prefix_def [symmetric])
  qed
qed

lemma list_succeeded:
  assumes "list w pfx s = Some ((sz, keys, None), s')"
  shows "sz = of_nat (total_length (first_page s (listed_prefix pfx)))
       \<and> keys = Some (map (\<lambda>entry. drop (length (listed_prefix pfx)) (fst entry))
                          (first_page s (listed_prefix pfx)))"
proof -
  obtain res s1 where l: "Container_ListBlobs (container w) \<lparr>Prefix = listed_prefix pfx\<rparr> s
      = (res, s1)"
    by (cases "Container_ListBlobs (container w) \<lparr>Prefix = listed_prefix pfx\<rparr> s")
  with assms show ?thesis
    by (cases res) (auto simp: list_result)
qed

lemma list_no_fault:
  assumes "faults s = []"
  shows "list w pfx s =
          Some ((of_nat (total_length (first_page s (listed_prefix pfx))),
                 Some (map (\<lambda>entry. drop (length (listed_prefix pfx)) (fst entry))
                          (first_page s (listed_prefix pfx))),
                 None), s\<lparr>calls := calls s @ [ListBlobs (listed_prefix pfx)]\<rparr>)"
  by (simp add: list_result Container_ListBlobs_def Let_def request_no_fault [OF assms])

lemma catalog_of_map:
  "catalog_of (map (\<lambda>i. (f i, \<lparr>committed = Some (g i), staged = h i\<rparr>)) xs)
     = map (\<lambda>i. (f i, g i)) xs"
  by (induction xs) simp_all

lemma under_prefix_all:
  "under_prefix p (map (\<lambda>i. (p @ k i, g i)) xs) = map (\<lambda>i. (p @ k i, g i)) xs"
  by (induction xs) (simp_all add: under_prefix_def has_prefix_append)

lemma total_length_map: "total_length (map (\<lambda>i. (f i, g i)) xs) = sum_list (map (\<lambda>i. length (g i)) xs)"
  by (simp add: total_length_def comp_def)

lemma under_ex_full:
  "under_prefix (listed_prefix (prefix ex_abs)) (catalog ex_full)
     = map (\<lambda>i. (listed_prefix (prefix ex_abs) @ replicate (Suc i) CHR ''a'', ''x'')) [0..<5001]"
proof -
  have p: "listed_prefix (prefix ex_abs) = ''v1/etcd/''"
    by code_simp
  have "catalog ex_full
      = map (\<lambda>i. (''v1/etcd/'' @ replicate (Suc i) CHR ''a'', ''x'')) [0..<5001]"
    unfolding catalog_def ex_full_def
    by (simp only: service.simps catalog_of_map)
  then show ?thesis
    by (simp only: p under_prefix_all)
qed

lemma sint_of_nat_small:
  assumes "n < 2 ^ 63"
  shows "sint (of_nat n :: 64 word) = int n"
proof -
  have "sint (of_nat n :: 64 word) = signed_take_bit 63 (int n)"
    using signed_of_nat [where 'a = int and 'b = 64, of n] by simp
  also have "\<dots> = int n"
    using assms by (intro signed_take_bit_63_id) simp_all
  finally show ?thesis .
qed

text \<open>
  C3. A successful \<open>List\<close> does not return the keys of all blobs under the
  schema-version segment joined with the adapter's prefix: \<open>list\<close> sends one listing
  request and never reads the marker of the response, so what \<open>List\<close> returns is the
  keys of the first page of the listing, each with the prefix stripped and none filtered
  out. When more blobs are under the prefix than the service puts in one response, the
  keys of the others are missing.
\<close>

theorem List_returns_first_page_only:
  assumes "List w s = Some ((keys, None), s')"
  shows "keys = Some (map (\<lambda>entry. drop (length (listed_prefix (prefix w))) (fst entry))
                   (first_page s (listed_prefix (prefix w))))
       \<and> (page_size s < length (under_prefix (listed_prefix (prefix w)) (catalog s))
            \<longrightarrow> (\<exists>ks. keys = Some ks \<and> length ks = page_size s
                  \<and> length ks < length (under_prefix (listed_prefix (prefix w)) (catalog s))))"
proof -
  from assms obtain sz where "list w (prefix w) s = Some ((sz, keys, None), s')"
    by (auto simp: List_def split: option.splits)
  from list_succeeded [OF this] have
    k: "keys = Some (map (\<lambda>entry. drop (length (listed_prefix (prefix w))) (fst entry))
                   (first_page s (listed_prefix (prefix w))))"
    by simp
  then show ?thesis
    by (simp add: first_page_def)
qed

theorem List_returns_first_page_only_witness:
  "(\<exists>s'. List ex_abs ex_paged = Some ((Some [''a'', ''b''], None), s'))
   \<and> map fst (under_prefix (listed_prefix (prefix ex_abs)) (catalog ex_paged))
       = [''v1/etcd/a'', ''v1/etcd/b'', ''v1/etcd/c'']
   \<and> page_size ex_paged = 2
   \<and> (\<exists>s'. List ex_abs ex_mixed = Some ((Some [''3.1.0_1'', ''not-a-snapshot''], None), s'))
   \<and> [''3.1.0_1'', ''not-a-snapshot'']
       = map (\<lambda>entry. drop (length (listed_prefix (prefix ex_abs))) (fst entry))
           (first_page ex_mixed (listed_prefix (prefix ex_abs)))
   \<and> (\<exists>ks s'. List ex_abs ex_full = Some ((Some ks, None), s') \<and> length ks = 5000)
   \<and> length (under_prefix (listed_prefix (prefix ex_abs)) (catalog ex_full)) = 5001
   \<and> page_size ex_full = 5000"
proof -
  define sp where "sp = snd (the (List ex_abs ex_paged))"
  have l: "List ex_abs ex_paged = Some ((Some [''a'', ''b''], None), sp)"
    unfolding sp_def by code_simp
  have u: "map fst (under_prefix (listed_prefix (prefix ex_abs)) (catalog ex_paged))
       = [''v1/etcd/a'', ''v1/etcd/b'', ''v1/etcd/c'']"
    by code_simp
  define sm where "sm = snd (the (List ex_abs ex_mixed))"
  have m: "List ex_abs ex_mixed = Some ((Some [''3.1.0_1'', ''not-a-snapshot''], None), sm)"
    unfolding sm_def by code_simp
  from List_returns_first_page_only [OF m]
  have mk: "[''3.1.0_1'', ''not-a-snapshot'']
       = map (\<lambda>entry. drop (length (listed_prefix (prefix ex_abs))) (fst entry))
           (first_page ex_mixed (listed_prefix (prefix ex_abs)))"
    by simp
  have ps: "page_size ex_paged = 2" "page_size ex_full = 5000"
    by (simp_all add: ex_paged_def ex_full_def)
  have n: "length (under_prefix (listed_prefix (prefix ex_abs)) (catalog ex_full)) = 5001"
    by (simp add: under_ex_full)
  have "faults ex_full = []"
    by (simp add: ex_full_def)
  from list_no_fault [OF this, of ex_abs "prefix ex_abs"] obtain ks sf where
    f: "List ex_abs ex_full = Some ((Some ks, None), sf)"
    by (simp add: List_def)
  from List_returns_first_page_only [OF f] n ps have "length ks = 5000"
    by auto
  with l u ps m mk n f show ?thesis by blast
qed

text \<open>
  C5. A successful \<open>TotalSize\<close> does not return the sum of the content lengths of all
  blobs under the schema-version segment joined with the adapter's prefix: it returns the
  sum over the first page of the listing, added up in an \<open>int64\<close>. When more blobs are
  under the prefix than the service puts in one response, the lengths of the others are
  not counted.
\<close>

theorem TotalSize_sums_first_page_only:
  assumes "TotalSize w s = Some ((sz, None), s')"
  shows "sz = of_nat (total_length (first_page s (listed_prefix (prefix w))))
       \<and> (total_length (first_page s (listed_prefix (prefix w))) < 2 ^ 63
            \<longrightarrow> sint sz = int (total_length (first_page s (listed_prefix (prefix w)))))"
proof -
  from assms obtain keys where "list w (prefix w) s = Some ((sz, keys, None), s')"
    by (auto simp: TotalSize_def split: option.splits)
  from list_succeeded [OF this] have
    "sz = of_nat (total_length (first_page s (listed_prefix (prefix w))))"
    by simp
  then show ?thesis
    using sint_of_nat_small by auto
qed

theorem TotalSize_sums_first_page_only_witness:
  "(\<exists>s'. TotalSize ex_abs ex_paged = Some ((3, None), s'))
   \<and> total_length (first_page ex_paged (listed_prefix (prefix ex_abs))) = 3
   \<and> total_length (under_prefix (listed_prefix (prefix ex_abs)) (catalog ex_paged)) = 6
   \<and> (\<exists>s'. TotalSize ex_abs ex_full = Some ((5000, None), s'))
   \<and> total_length (under_prefix (listed_prefix (prefix ex_abs)) (catalog ex_full)) = 5001"
proof -
  define sp where "sp = snd (the (TotalSize ex_abs ex_paged))"
  have l: "TotalSize ex_abs ex_paged = Some ((3, None), sp)"
    unfolding sp_def by code_simp
  have t: "total_length (first_page ex_paged (listed_prefix (prefix ex_abs))) = 3"
      "total_length (under_prefix (listed_prefix (prefix ex_abs)) (catalog ex_paged)) = 6"
    by code_simp+
  have n: "total_length (under_prefix (listed_prefix (prefix ex_abs)) (catalog ex_full)) = 5001"
    by (simp add: under_ex_full total_length_map sum_list_triv)
  have "first_page ex_full (listed_prefix (prefix ex_abs))
      = map (\<lambda>i. (listed_prefix (prefix ex_abs) @ replicate (Suc i) CHR ''a'', ''x'')) [0..<5000]"
    unfolding first_page_def under_ex_full
    by (simp add: ex_full_def take_map)
  then have p: "total_length (first_page ex_full (listed_prefix (prefix ex_abs))) = 5000"
    by (simp add: total_length_map sum_list_triv)
  have "faults ex_full = []"
    by (simp add: ex_full_def)
  from list_no_fault [OF this, of ex_abs "prefix ex_abs"] obtain sz sf where
    f: "TotalSize ex_abs ex_full = Some ((sz, None), sf)"
    by (simp add: TotalSize_def)
  from TotalSize_sums_first_page_only [OF f] p have "sz = 5000"
    by simp
  with f have "TotalSize ex_abs ex_full = Some ((5000, None), sf)"
    by simp
  moreover from TotalSize_sums_first_page_only [OF l] t have "sint (3 :: int64) = 3"
    by simp
  ultimately show ?thesis using l t n by blast
qed

text \<open>
  C9. When the listing call fails with an error, \<open>TotalSize\<close> returns \<open>-1\<close>, not
  \<open>0\<close>, with that error and \<open>List\<close> returns the \<open>nil\<close> slice with that error. When
  the listing call succeeds and the catalog holds no blob under the prefix, \<open>List\<close>
  returns a slice that is empty and not \<open>nil\<close>, and \<open>TotalSize\<close> returns \<open>0\<close>, both
  with no error.
\<close>

theorem listing_failure_and_empty_results:
  "(Container_ListBlobs (container w) \<lparr>Prefix = listed_prefix (prefix w)\<rparr> s = (Inl e, s')
      \<longrightarrow> TotalSize w s = Some ((- 1, Some e), s') \<and> sint (- 1 :: int64) = - 1
        \<and> List w s = Some ((None, Some e), s'))
   \<and> (Container_ListBlobs (container w) \<lparr>Prefix = listed_prefix (prefix w)\<rparr> s = (Inr resp, s')
        \<and> under_prefix (listed_prefix (prefix w)) (catalog s) = []
      \<longrightarrow> List w s = Some ((Some [], None), s')
        \<and> TotalSize w s = Some ((0, None), s'))"
proof -
  have "TotalSize w s = Some ((- 1, Some e), s') \<and> List w s = Some ((None, Some e), s')"
    if "Container_ListBlobs (container w) \<lparr>Prefix = listed_prefix (prefix w)\<rparr> s = (Inl e, s')"
    using that by (simp add: TotalSize_def List_def list_result)
  moreover have "List w s = Some ((Some [], None), s') \<and> TotalSize w s = Some ((0, None), s')"
    if "Container_ListBlobs (container w) \<lparr>Prefix = listed_prefix (prefix w)\<rparr> s = (Inr resp, s')"
      and "under_prefix (listed_prefix (prefix w)) (catalog s) = []"
    using that by (simp add: TotalSize_def List_def list_result first_page_def total_length_def)
  moreover have "sint (- 1 :: int64) = - 1"
    by simp
  ultimately show ?thesis by blast
qed

theorem listing_failure_and_empty_results_witness:
  "Container_ListBlobs (container ex_abs) \<lparr>Prefix = listed_prefix (prefix ex_abs)\<rparr> ex_failing
     = (Inl (Err ''connection reset''),
        ex_empty\<lparr>calls := [ListBlobs ''v1/etcd/'']\<rparr>)
   \<and> TotalSize ex_abs ex_failing
     = Some ((- 1, Some (Err ''connection reset'')),
             ex_empty\<lparr>calls := [ListBlobs ''v1/etcd/'']\<rparr>)
   \<and> List ex_abs ex_failing
     = Some ((None, Some (Err ''connection reset'')),
             ex_empty\<lparr>calls := [ListBlobs ''v1/etcd/'']\<rparr>)
   \<and> (\<exists>resp. Container_ListBlobs (container ex_abs) \<lparr>Prefix = listed_prefix (prefix ex_abs)\<rparr>
          ex_outside
        = (Inr resp, ex_outside\<lparr>calls := [ListBlobs ''v1/etcd/'']\<rparr>))
   \<and> under_prefix (listed_prefix (prefix ex_abs)) (catalog ex_outside) = []
   \<and> List ex_abs ex_outside
     = Some ((Some [], None), ex_outside\<lparr>calls := [ListBlobs ''v1/etcd/'']\<rparr>)
   \<and> TotalSize ex_abs ex_outside
     = Some ((0, None), ex_outside\<lparr>calls := [ListBlobs ''v1/etcd/'']\<rparr>)"
proof -
  define resp where "resp = \<lparr>resp_Prefix = ''v1/etcd/'', Blobs = [], NextMarker = []\<rparr>"
  have f: "Container_ListBlobs (container ex_abs) \<lparr>Prefix = listed_prefix (prefix ex_abs)\<rparr>
        ex_failing
     = (Inl (Err ''connection reset''),
        ex_empty\<lparr>calls := [ListBlobs ''v1/etcd/'']\<rparr>)"
    by code_simp
  have e: "Container_ListBlobs (container ex_abs) \<lparr>Prefix = listed_prefix (prefix ex_abs)\<rparr>
        ex_outside
     = (Inr resp, ex_outside\<lparr>calls := [ListBlobs ''v1/etcd/'']\<rparr>)"
    unfolding resp_def by code_simp
  have u: "under_prefix (listed_prefix (prefix ex_abs)) (catalog ex_outside) = []"
    by code_simp
  from f listing_failure_and_empty_results [of ex_abs ex_failing "Err ''connection reset''"
      "ex_empty\<lparr>calls := [ListBlobs ''v1/etcd/'']\<rparr>"]
  have "TotalSize ex_abs ex_failing
     = Some ((- 1, Some (Err ''connection reset'')),
             ex_empty\<lparr>calls := [ListBlobs ''v1/etcd/'']\<rparr>)
   \<and> List ex_abs ex_failing
     = Some ((None, Some (Err ''connection reset'')),
             ex_empty\<lparr>calls := [ListBlobs ''v1/etcd/'']\<rparr>)"
    by blast
  moreover
  from e u listing_failure_and_empty_results [of ex_abs ex_outside _
      "ex_outside\<lparr>calls := [ListBlobs ''v1/etcd/'']\<rparr>" resp]
  have "List ex_abs ex_outside
     = Some ((Some [], None), ex_outside\<lparr>calls := [ListBlobs ''v1/etcd/'']\<rparr>)
   \<and> TotalSize ex_abs ex_outside
     = Some ((0, None), ex_outside\<lparr>calls := [ListBlobs ''v1/etcd/'']\<rparr>)"
    by blast
  ultimately show ?thesis using f e u by blast
qed

section \<open>Properties of the blob name\<close>

lemma split_on_not_Nil: "split_on c xs \<noteq> []"
  by (induction xs) (auto split: list.splits)

lemma split_on_append: "split_on c (xs @ c # ys) = split_on c xs @ split_on c ys"
proof (induction xs)
  case Nil
  show ?case by simp
next
  case (Cons x xs)
  obtain s ss where s: "split_on c xs = s # ss"
    using split_on_not_Nil [of c xs] by (cases "split_on c xs") auto
  with Cons.IH show ?case by simp
qed

lemma join_with_Cons: "ss \<noteq> [] \<Longrightarrow> join_with sep (s # ss) = s @ sep @ join_with sep ss"
  by (cases ss) simp_all

lemma join_with_append:
  "xs \<noteq> [] \<Longrightarrow> ys \<noteq> [] \<Longrightarrow> join_with sep (xs @ ys) = join_with sep xs @ sep @ join_with sep ys"
proof (induction xs)
  case Nil
  then show ?case by simp
next
  case (Cons x xs)
  show ?case
  proof (cases xs)
    case Nil
    with Cons.prems show ?thesis by (simp add: join_with_Cons)
  next
    case (Cons a as)
    with Cons.IH Cons.prems show ?thesis by (simp add: join_with_Cons)
  qed
qed

lemma join_with_split_on: "join_with [c] (split_on c xs) = xs"
proof (induction xs)
  case Nil
  show ?case by simp
next
  case (Cons x xs)
  obtain s ss where s: "split_on c xs = s # ss"
    using split_on_not_Nil [of c xs] by (cases "split_on c xs") auto
  show ?case
  proof (cases "x = c")
    case True
    with Cons.IH show ?thesis by (simp add: join_with_Cons split_on_not_Nil)
  next
    case False
    with Cons.IH s show ?thesis by (cases ss) simp_all
  qed
qed

lemma foldl_clean_elem_plain:
  "list_all (\<lambda>e. e \<noteq> [] \<and> e \<noteq> ''.'' \<and> e \<noteq> ''..'') es
     \<Longrightarrow> foldl (clean_elem rooted) out es = out @ es"
  by (induction es arbitrary: out) (simp_all add: clean_elem_def)

lemma path_Join_plain:
  assumes "plain_path p" and "plain_path k"
  shows "path_Join [v1, p, k] = ''v1/'' @ p @ ''/'' @ k"
proof -
  let ?sp = "split_on CHR ''/'' p" and ?sk = "split_on CHR ''/'' k"
  let ?q = "''v1'' @ CHR ''/'' # ([] @ CHR ''/'' # (p @ CHR ''/'' # k))"
  have j: "join_with ''/'' [v1, p, k] = ?q"
    by (simp add: v1_def)
  have sp: "split_on CHR ''/'' ?q = [''v1'', []] @ ?sp @ ?sk"
    by (simp only: split_on_append) simp
  have pl: "list_all (\<lambda>e. e \<noteq> [] \<and> e \<noteq> ''.'' \<and> e \<noteq> ''..'') (?sp @ ?sk)"
    using assms by (simp add: plain_path_def)
  have "foldl (clean_elem False) [] ([''v1'', []] @ ?sp @ ?sk)
      = foldl (clean_elem False) [''v1''] (?sp @ ?sk)"
    by (simp add: clean_elem_def)
  also have "\<dots> = [''v1''] @ ?sp @ ?sk"
    by (rule foldl_clean_elem_plain [OF pl])
  finally have f: "foldl (clean_elem False) [] (split_on CHR ''/'' ?q) = [''v1''] @ ?sp @ ?sk"
    by (simp only: sp)
  have b: "join_with ''/'' ([''v1''] @ ?sp @ ?sk) = ''v1/'' @ p @ ''/'' @ k"
    using join_with_append [of ?sp ?sk "''/''"] join_with_split_on [of "CHR ''/''"]
    by (simp add: join_with_Cons split_on_not_Nil)
  have r: "\<not> (?q \<noteq> [] \<and> hd ?q = CHR ''/'')" by simp
  have "path_Clean ?q = ''v1/'' @ p @ ''/'' @ k"
    unfolding path_Clean_def Let_def using r
    by (simp only: f b if_False) simp
  then show ?thesis
    by (simp add: path_Join.simps j v1_def)
qed

lemma Put_calls:
  assumes "Put w key chunk r s = Some (res, r', s')"
  shows "calls s' = calls s @ [CreateBlockBlob (path_Join [v1, prefix w, key])]
       \<or> (\<exists>blockID. calls s' = calls s @ [CreateBlockBlob (path_Join [v1, prefix w, key]),
             PutBlock (path_Join [v1, prefix w, key]) blockID chunk])"
proof -
  define blob where "blob = GetBlobReference (container w) (path_Join [v1, prefix w, key])"
  have n: "Blob_Name blob = path_Join [v1, prefix w, key]"
    by (simp add: blob_def GetBlobReference_def)
  from Put_cases [OF assms] consider
    (create) e where "Blob_CreateBlockBlob blob s = (Some e, s')"
  | (block) s1 bs e2 where "Blob_CreateBlockBlob blob s = (None, s1)"
      "Blob_PutBlock blob (EncodeToString bs) chunk s1 = (e2, s')"
    unfolding blob_def by blast
  then show ?thesis
  proof cases
    case create
    from CreateBlockBlob_failed [OF this] n show ?thesis by simp
  next
    case block
    have c: "calls s1 = calls s @ [CreateBlockBlob (path_Join [v1, prefix w, key])]"
      using CreateBlockBlob_ok(2) [OF block(1)] n by simp
    have "calls s' = calls s1 @ [PutBlock (path_Join [v1, prefix w, key]) (EncodeToString bs) chunk]"
    proof (cases e2)
      case None
      with block(2) PutBlock_ok(2) n show ?thesis by simp
    next
      case (Some e)
      with block(2) PutBlock_failed n show ?thesis by simp
    qed
    with c show ?thesis by simp
  qed
qed

lemma CreateBlockBlob_frame:
  assumes "Blob_CreateBlockBlob b s = (res, s1)" and "n \<noteq> Blob_Name b"
  shows "map_of (stored s1) n = map_of (stored s) n"
proof -
  obtain e s' where r: "request (CreateBlockBlob (Blob_Name b)) s = (e, s')"
    by (cases "request (CreateBlockBlob (Blob_Name b)) s")
  from request_effect [OF r] have st: "stored s' = stored s" by simp
  from assms r st show ?thesis
    by (cases e) (auto simp: Blob_CreateBlockBlob_def update_conv')
qed

lemma PutBlock_frame:
  assumes "Blob_PutBlock b blockID chunk s = (res, s1)" and "n \<noteq> Blob_Name b"
  shows "map_of (stored s1) n = map_of (stored s) n"
proof -
  obtain e s' where r: "request (PutBlock (Blob_Name b) blockID chunk) s = (e, s')"
    by (cases "request (PutBlock (Blob_Name b) blockID chunk) s")
  from request_effect [OF r] have st: "stored s' = stored s" by simp
  from assms r st show ?thesis
    by (cases e) (auto simp: Blob_PutBlock_def update_conv')
qed

lemma Blob_Delete_frame:
  assumes "Blob_Delete b s = (res, s1)"
  shows "(n \<noteq> Blob_Name b \<longrightarrow> map_of (stored s1) n = map_of (stored s) n)
       \<and> (res = None \<longrightarrow> map_of (stored s1) (Blob_Name b) = None)"
proof -
  obtain e s' where r: "request (DeleteBlob (Blob_Name b)) s = (e, s')"
    by (cases "request (DeleteBlob (Blob_Name b)) s")
  from request_effect [OF r] have st: "stored s' = stored s" by simp
  from assms r st show ?thesis
    by (cases e; cases "read_committed s' (Blob_Name b)")
      (auto simp: Blob_Delete_def delete_conv')
qed

lemma Put_frame:
  assumes "Put w key chunk r s = Some (res, r', s')"
      and "n \<noteq> path_Join [v1, prefix w, key]"
  shows "map_of (stored s') n = map_of (stored s) n"
proof -
  define blob where "blob = GetBlobReference (container w) (path_Join [v1, prefix w, key])"
  have n: "n \<noteq> Blob_Name blob"
    using assms(2) by (simp add: blob_def GetBlobReference_def)
  from Put_cases [OF assms(1)] consider
    (create) e where "Blob_CreateBlockBlob blob s = (Some e, s')"
  | (block) s1 bs e2 where "Blob_CreateBlockBlob blob s = (None, s1)"
      "Blob_PutBlock blob (EncodeToString bs) chunk s1 = (e2, s')"
    unfolding blob_def by blast
  then show ?thesis
  proof cases
    case create
    from CreateBlockBlob_frame [OF this n] show ?thesis .
  next
    case block
    from CreateBlockBlob_frame [OF block(1) n] PutBlock_frame [OF block(2) n]
    show ?thesis by simp
  qed
qed

text \<open>
  C2. For every key, \<open>Put\<close>, \<open>Get\<close> and \<open>Delete\<close> address the same blob, the one
  named by \<open>path.Join\<close> of the schema-version segment, the adapter's prefix and the key:
  every call they send to the service names that blob, \<open>Put\<close> and \<open>Delete\<close> leave
  every other blob as it is, what \<open>Get\<close> returns is the content of that blob, and what
  \<open>Delete\<close> removes is that blob. So the three compute the same name for the same inputs.
  The name is \<open>v1/<prefix>/<key>\<close> when the prefix and the key are plain paths (not empty,
  with no empty, \<open>.\<close> or \<open>..\<close> element).
\<close>

theorem Put_Get_Delete_address_joined_name:
  assumes "name = path_Join [v1, prefix w, key]"
  shows "(Put w key chunk r s = Some (res, r', s')
            \<longrightarrow> (calls s' = calls s @ [CreateBlockBlob name]
                \<or> (\<exists>blockID. calls s' = calls s @ [CreateBlockBlob name,
                                                    PutBlock name blockID chunk]))
              \<and> (\<forall>n. n \<noteq> name \<longrightarrow> map_of (stored s') n = map_of (stored s) n))
       \<and> (Get w key s = (got, sg)
            \<longrightarrow> calls sg = calls s @ [GetBlob name] \<and> stored sg = stored s
              \<and> (\<forall>content. fst got = Some content \<longrightarrow> read_committed s name = Some content))
       \<and> (Delete w key s = (del, sd)
            \<longrightarrow> calls sd = calls s @ [DeleteBlob name]
              \<and> (\<forall>n. n \<noteq> name \<longrightarrow> map_of (stored sd) n = map_of (stored s) n)
              \<and> (del = None \<longrightarrow> map_of (stored sd) name = None))
       \<and> (plain_path (prefix w) \<and> plain_path key \<longrightarrow> name = ''v1/'' @ prefix w @ ''/'' @ key)"
proof -
  define blob where "blob = GetBlobReference (container w) name"
  have n: "Blob_Name blob = name"
    by (simp add: blob_def GetBlobReference_def)
  have "calls sg = calls s @ [GetBlob name] \<and> stored sg = stored s
      \<and> (\<forall>content. fst got = Some content \<longrightarrow> read_committed s name = Some content)"
    if g: "Get w key s = (got, sg)"
  proof -
    obtain x where x: "Blob_Get blob s = (x, sg)"
        and gx: "got = (case x of Inl err \<Rightarrow> (None, Some err) | Inr resp \<Rightarrow> (Some resp, None))"
      using g unfolding Get_def Let_def blob_def assms
      by (cases "Blob_Get (GetBlobReference (container w) (path_Join [v1, prefix w, key])) s")
        (auto split: sum.splits)
    have "read_committed s name = Some content" if "fst got = Some content" for content
    proof -
      from that gx have "x = Inr content" by (cases x) simp_all
      with x have "Blob_Get blob s = (Inr content, sg)" by simp
      from Blob_Get_ok [OF this] n show ?thesis by simp
    qed
    with Blob_Get_effect [OF x] n show ?thesis by simp
  qed
  moreover have "calls sd = calls s @ [DeleteBlob name]
      \<and> (\<forall>n. n \<noteq> name \<longrightarrow> map_of (stored sd) n = map_of (stored s) n)
      \<and> (del = None \<longrightarrow> map_of (stored sd) name = None)"
    if d: "Delete w key s = (del, sd)"
  proof -
    from d have "Blob_Delete blob s = (del, sd)"
      by (simp add: Delete_def Let_def blob_def assms)
    from Blob_Delete_calls [OF this] Blob_Delete_frame [OF this] n show ?thesis by simp
  qed
  moreover have "name = ''v1/'' @ prefix w @ ''/'' @ key"
    if "plain_path (prefix w)" "plain_path key"
    using that by (simp add: assms path_Join_plain)
  moreover have "(calls s' = calls s @ [CreateBlockBlob name]
      \<or> (\<exists>blockID. calls s' = calls s @ [CreateBlockBlob name, PutBlock name blockID chunk]))
      \<and> (\<forall>n. n \<noteq> name \<longrightarrow> map_of (stored s') n = map_of (stored s) n)"
    if p: "Put w key chunk r s = Some (res, r', s')"
    using Put_calls [OF p] Put_frame [OF p] unfolding assms by blast
  ultimately show ?thesis by blast
qed

theorem Put_Get_Delete_address_joined_name_witness:
  "''v1/etcd/3.1.0_1'' = path_Join [v1, prefix ex_abs, ''3.1.0_1'']
   \<and> plain_path (prefix ex_abs) \<and> plain_path ''3.1.0_1''
   \<and> ''v1/etcd/3.1.0_1'' = ''v1/'' @ prefix ex_abs @ ''/'' @ ''3.1.0_1''
   \<and> (\<exists>r'. Put ex_abs ''3.1.0_1'' ''data'' (\<lambda>i. 0) ex_empty = Some (None, r', ex_written))
   \<and> calls ex_written = calls ex_empty @ [CreateBlockBlob ''v1/etcd/3.1.0_1'',
                                           PutBlock ''v1/etcd/3.1.0_1'' ''YWFhYWFh'' ''data'']
   \<and> (\<exists>got sg. Get ex_abs ''3.1.0_1'' ex_written = (got, sg)
         \<and> calls sg = calls ex_written @ [GetBlob ''v1/etcd/3.1.0_1''])
   \<and> (\<exists>del sd. Delete ex_abs ''3.1.0_1'' ex_written = (del, sd)
         \<and> calls sd = calls ex_written @ [DeleteBlob ''v1/etcd/3.1.0_1''])"
proof -
  have n: "''v1/etcd/3.1.0_1'' = path_Join [v1, prefix ex_abs, ''3.1.0_1'']"
    by code_simp
  have pl: "plain_path (prefix ex_abs)" "plain_path ''3.1.0_1''"
    by code_simp+
  have "case Put ex_abs ''3.1.0_1'' ''data'' (\<lambda>i. 0) ex_empty of
          None \<Rightarrow> False
        | Some (res, r', s') \<Rightarrow> res = None \<and> s' = ex_written"
    by code_simp
  then obtain r' where
    p: "Put ex_abs ''3.1.0_1'' ''data'' (\<lambda>i. 0) ex_empty = Some (None, r', ex_written)"
    by (auto split: option.splits)
  have c: "calls ex_written = calls ex_empty @ [CreateBlockBlob ''v1/etcd/3.1.0_1'',
                                           PutBlock ''v1/etcd/3.1.0_1'' ''YWFhYWFh'' ''data'']"
    by code_simp
  obtain got sg where g: "Get ex_abs ''3.1.0_1'' ex_written = (got, sg)"
    by (cases "Get ex_abs ''3.1.0_1'' ex_written")
  obtain del sd where d: "Delete ex_abs ''3.1.0_1'' ex_written = (del, sd)"
    by (cases "Delete ex_abs ''3.1.0_1'' ex_written")
  from Put_Get_Delete_address_joined_name [OF n, where chunk = "''data''" and r = "\<lambda>i. 0"
      and s = ex_empty and res = None and r' = r' and s' = ex_written] p
  have pc: "calls ex_written = calls ex_empty @ [CreateBlockBlob ''v1/etcd/3.1.0_1'']
      \<or> (\<exists>blockID. calls ex_written = calls ex_empty @ [CreateBlockBlob ''v1/etcd/3.1.0_1'',
             PutBlock ''v1/etcd/3.1.0_1'' blockID ''data''])"
    by blast
  note t = Put_Get_Delete_address_joined_name [OF n, where s = ex_written and got = got
      and sg = sg and del = del and sd = sd]
  from t g have "calls sg = calls ex_written @ [GetBlob ''v1/etcd/3.1.0_1'']" by blast
  moreover from t d have "calls sd = calls ex_written @ [DeleteBlob ''v1/etcd/3.1.0_1'']" by blast
  moreover from t pl have "''v1/etcd/3.1.0_1'' = ''v1/'' @ prefix ex_abs @ ''/'' @ ''3.1.0_1''"
    by blast
  ultimately show ?thesis using n pl p pc c g d by blast
qed

theorem key_with_dotdot_leaves_prefix:
  "path_Join [v1, prefix ex_abs, ''../3.1.0_1''] = ''v1/3.1.0_1''
   \<and> ''v1/'' @ prefix ex_abs @ ''/'' @ ''../3.1.0_1'' = ''v1/etcd/../3.1.0_1''
   \<and> ''v1/3.1.0_1'' \<noteq> ''v1/etcd/../3.1.0_1''
   \<and> Get ex_abs ''../3.1.0_1'' ex_outside
       = ((Some ''zz'', None), ex_outside\<lparr>calls := [GetBlob ''v1/3.1.0_1'']\<rparr>)"
  by code_simp

section \<open>Properties of the snapshot names\<close>

lemma digit_val_digit_char: "d < 10 \<Longrightarrow> digit_val (digit_char d) = d"
  by (simp add: digit_val_def digit_char_def)

lemma is_digit_digit_char: "d < 10 \<Longrightarrow> is_digit (digit_char d)"
  by (simp add: is_digit_def digit_char_def)

lemma length_fixed_decimal: "length (fixed_decimal k n) = k"
  by (induction k arbitrary: n) simp_all

lemma digits_fixed_decimal: "list_all is_digit (fixed_decimal k n)"
  by (induction k arbitrary: n) (simp_all add: is_digit_digit_char)

lemma parse_decimal_snoc: "parse_decimal (ds @ [c]) = 10 * parse_decimal ds + digit_val c"
  by (simp add: parse_decimal_def)

lemma parse_fixed_decimal: "parse_decimal (fixed_decimal k n) = n mod 10 ^ k"
proof (induction k arbitrary: n)
  case 0
  show ?case by (simp add: parse_decimal_def)
next
  case (Suc k)
  have "parse_decimal (fixed_decimal (Suc k) n) = 10 * (n div 10 mod 10 ^ k) + n mod 10"
    by (simp add: parse_decimal_snoc Suc.IH digit_val_digit_char)
  also have "\<dots> = n mod (10 * 10 ^ k)"
    by (simp add: mod_mult2_eq)
  finally show ?case by simp
qed

lemma in_split_on:
  "x \<in> set s \<Longrightarrow> x = c \<or> (\<exists>e \<in> set (split_on c s). x \<in> set e)"
proof (induction s)
  case Nil
  then show ?case by simp
next
  case (Cons a s)
  obtain t ts where t: "split_on c s = t # ts"
    using split_on_not_Nil [of c s] by (cases "split_on c s") auto
  show ?case
  proof (cases "a = c")
    case True
    with Cons show ?thesis by auto
  next
    case False
    with Cons t show ?thesis by auto
  qed
qed

lemma valid_version_no_underscore:
  assumes "valid_version v"
  shows "CHR ''_'' \<notin> set v"
proof
  assume "CHR ''_'' \<in> set v"
  from in_split_on [OF this, of "CHR ''.''"] obtain e where
    "e \<in> set (split_on CHR ''.'' v)" "CHR ''_'' \<in> set e"
    by auto
  with assms have "is_digit CHR ''_''"
    by (auto simp: valid_version_def list_all_iff)
  then show False by (simp add: is_digit_def)
qed

lemma revision_roundtrip:
  assumes "0 \<le> sint r"
  shows "of_nat (nat (sint r)) = (r :: int64)"
proof -
  have "of_nat (nat (sint r)) = (word_of_int (sint r) :: int64)"
    using assms by (simp add: word_of_int_nat)
  then show ?thesis by simp
qed

text \<open>
  C7. For every valid pair of a version and a revision, decoding the name that the
  encoder produces gives the pair back.
\<close>

theorem decodeName_encodeName:
  assumes "valid_pair version revision"
  shows "decodeName (encodeName version revision) = Some (version, revision)"
proof -
  let ?ds = "fixed_decimal revision_width (nat (sint revision))"
  from assms have v: "valid_version version" and r0: "0 \<le> sint revision"
    and r1: "sint revision < 10 ^ revision_width"
    by (simp_all add: valid_pair_def)
  have nu: "\<And>c. c \<in> set version \<Longrightarrow> c \<noteq> CHR ''_''"
    using valid_version_no_underscore [OF v] by auto
  have tw: "takeWhile (\<lambda>c. c \<noteq> CHR ''_'') (version @ CHR ''_'' # ?ds) = version"
    using nu by (simp add: takeWhile_append2)
  have dw: "dropWhile (\<lambda>c. c \<noteq> CHR ''_'') (version @ CHR ''_'' # ?ds) = CHR ''_'' # ?ds"
    using nu by (simp add: dropWhile_append2)
  have "nat (sint revision) < 10 ^ revision_width"
    using r0 r1 by (simp add: nat_less_iff)
  then have "parse_decimal ?ds = nat (sint revision)"
    by (simp add: parse_fixed_decimal)
  then have p: "of_nat (parse_decimal ?ds) = revision"
    using revision_roundtrip [OF r0] by simp
  show ?thesis
    unfolding decodeName_def encodeName_def Let_def
    using v p by (simp add: tw dw length_fixed_decimal digits_fixed_decimal)
qed

theorem decodeName_encodeName_witness:
  "valid_pair ''3.1.1'' 2
   \<and> encodeName ''3.1.1'' 2 = ''3.1.1_0000000002''
   \<and> decodeName (encodeName ''3.1.1'' 2) = Some (''3.1.1'', 2)"
proof -
  have v: "valid_pair ''3.1.1'' 2" by code_simp
  have e: "encodeName ''3.1.1'' 2 = ''3.1.1_0000000002''" by code_simp
  from decodeName_encodeName [OF v] v e show ?thesis by simp
qed

end
